theory Spec2Isabelle
  imports Main "HOL-Library.Sublist"
begin

section \<open>Strings as the dialogue core uses them\<close>

text \<open>
  A JavaScript string is modelled as a HOL \<^typ>\<open>string\<close>. The model covers ASCII text:
  \<open>trim\<close> and the regular-expression class \<open>\s\<close> remove the six ASCII white-space
  characters, \<open>toUpperCase\<close> maps \<open>a\<close>..\<open>z\<close> to \<open>A\<close>..\<open>Z\<close> and leaves every other
  character alone, and \<open>length\<close> counts characters.
\<close>

definition isSpace :: "char \<Rightarrow> bool" where
  "isSpace c = (c \<in> set [CHR 0x09, CHR 0x0A, CHR 0x0B, CHR 0x0C, CHR 0x0D, CHR '' ''])"

definition isLineTerminator :: "char \<Rightarrow> bool" where
  "isLineTerminator c = (c = CHR 0x0A \<or> c = CHR 0x0D)"

definition trimStart :: "string \<Rightarrow> string" where
  "trimStart s = dropWhile isSpace s"

definition trimEnd :: "string \<Rightarrow> string" where
  "trimEnd s = rev (dropWhile isSpace (rev s))"

definition trim :: "string \<Rightarrow> string" where
  "trim s = trimEnd (trimStart s)"

definition upper_table :: "(char \<times> char) list" where
  "upper_table = zip ''abcdefghijklmnopqrstuvwxyz'' ''ABCDEFGHIJKLMNOPQRSTUVWXYZ''"

definition toUpperChar :: "char \<Rightarrow> char" where
  "toUpperChar c = (case map_of upper_table c of Some u \<Rightarrow> u | None \<Rightarrow> c)"

definition toUpperCase :: "string \<Rightarrow> string" where
  "toUpperCase s = map toUpperChar s"

text \<open>\<open>s.startsWith(k)\<close> is \<^term>\<open>prefix k s\<close>; \<open>s.includes(k)\<close> is \<^term>\<open>str_includes s k\<close>.\<close>

fun str_includes :: "string \<Rightarrow> string \<Rightarrow> bool" where
  "str_includes [] k = (k = [])"
| "str_includes (c # cs) k = (prefix k (c # cs) \<or> str_includes cs k)"

section \<open>Constants (constants.ts)\<close>

definition MAX_RETRIES :: nat where
  "MAX_RETRIES = 3"

definition RETRYABLE_STATUS_CODES :: "nat list" where
  "RETRYABLE_STATUS_CODES = [429, 503, 502, 504]"

definition MAX_ARTICLE_CHARS :: nat where
  "MAX_ARTICLE_CHARS = 24000"

definition ALIGNMENT_KEYWORDS :: "string list" where
  "ALIGNMENT_KEYWORDS = [''ALIGNED'', ''I AGREE WITH THIS INTERPRETATION'', ''WE ARE ALIGNED'']"

definition APPROVAL_KEYWORDS :: "string list" where
  "APPROVAL_KEYWORDS = [''APPROVED'']"

definition MARGINAL_KEYWORDS :: "string list" where
  "MARGINAL_KEYWORDS = [''MARGINAL'']"

section \<open>Response classification\<close>

text \<open>
  Both classifiers run \<open>for (const keyword of KEYWORDS) if (text.startsWith(keyword)) return ...\<close>
  over the trimmed, upper-cased response. \<open>startsWithAny\<close> is that loop.
\<close>

fun startsWithAny :: "string list \<Rightarrow> string \<Rightarrow> bool" where
  "startsWithAny [] t = False"
| "startsWithAny (k # ks) t = (if prefix k t then True else startsWithAny ks t)"

definition isAligned :: "string \<Rightarrow> bool" where
  "isAligned response = startsWithAny ALIGNMENT_KEYWORDS (toUpperCase (trim response))"

datatype critique_status = Approved | Marginal | NeedsWork

definition parseCritiqueStatus :: "string \<Rightarrow> critique_status" where
  "parseCritiqueStatus critique =
     (let trimmedUpper = toUpperCase (trim critique) in
      if startsWithAny APPROVAL_KEYWORDS trimmedUpper then Approved
      else if startsWithAny MARGINAL_KEYWORDS trimmedUpper then Marginal
      else NeedsWork)"


section \<open>The request layer (OpenRouterClient)\<close>

text \<open>
  An error thrown by the client is an \<open>OpenRouterError\<close> (message, status code, retryable
  flag) or a plain \<open>Error\<close> (message).
\<close>

datatype js_error = OpenRouterError string nat bool | Error string

fun message :: "js_error \<Rightarrow> string" where
  "message (OpenRouterError m status r) = m"
| "message (Error m) = m"

text \<open>\<open>error instanceof OpenRouterError && error.isRetryable\<close>\<close>

fun isRetryable :: "js_error \<Rightarrow> bool" where
  "isRetryable (OpenRouterError m status r) = r"
| "isRetryable (Error m) = False"

text \<open>
  The JSON body of a response (interface \<open>OpenRouterResponse\<close>): the optional \<open>error\<close>
  envelope with its message and code, and the optional \<open>choices\<close> array, of which the
  model keeps each choice's \<open>message.content\<close>. What \<open>requestUrl\<close> does is either to throw
  (the endpoint was not reached) or to return a status with a body.
\<close>

record response_body =
  body_error :: "(string \<times> nat) option"
  body_choices :: "string list option"

datatype transport_outcome = NetworkFailure | HttpResponse nat response_body

definition digit_char :: "nat \<Rightarrow> char" where
  "digit_char n = ''0123456789'' ! (n mod 10)"

fun show_nat :: "nat \<Rightarrow> string" where
  "show_nat n = (if n < 10 then [digit_char n] else show_nat (n div 10) @ [digit_char n])"

declare show_nat.simps [simp del]

definition errorMessages :: "(nat \<times> string) list" where
  "errorMessages =
    [(400, ''Bad request. The model ID may be invalid.''),
     (401, ''Invalid API key. Please check your OpenRouter API key in settings.''),
     (402, ''Insufficient credits. Please add credits to your OpenRouter account.''),
     (403, ''Access forbidden. Your API key may not have access to this model.''),
     (404, ''Model not found. Please select a different model in settings.''),
     (429, ''Rate limited. Retrying...''),
     (500, ''OpenRouter server error. Please try again.''),
     (502, ''Bad gateway. OpenRouter may be experiencing issues.''),
     (503, ''Service temporarily unavailable. Retrying...''),
     (504, ''Gateway timeout. Retrying...'')]"

definition handleHttpError :: "nat \<Rightarrow> js_error" where
  "handleHttpError status =
     (let retryable = status \<in> set RETRYABLE_STATUS_CODES;
          msg = (case map_of errorMessages status of
                   Some m \<Rightarrow> m
                 | None \<Rightarrow> ''Request failed with status '' @ show_nat status)
      in OpenRouterError msg status retryable)"

text \<open>
  \<open>handleResponse\<close> is the body of \<open>makeRequest\<close> once \<open>requestUrl\<close> has thrown or
  returned: the network failure, the status check, the error envelope, the choices, the
  content, in the order of the source. \<open>a || b\<close> on a string or a number takes \<open>b\<close> when
  \<open>a\<close> is empty or zero.
\<close>

definition handleResponse :: "transport_outcome \<Rightarrow> js_error + string" where
  "handleResponse outcome =
     (case outcome of
        NetworkFailure \<Rightarrow>
          Inl (OpenRouterError ''Network error: Failed to connect to OpenRouter'' 0 True)
      | HttpResponse status data \<Rightarrow>
          if status \<noteq> 200 then Inl (handleHttpError status)
          else (case body_error data of
             Some (m, code) \<Rightarrow>
               Inl (OpenRouterError (if m = [] then ''API error'' else m)
                      (if code = 0 then status else code) False)
           | None \<Rightarrow>
              (case body_choices data of
                 None \<Rightarrow> Inl (OpenRouterError ''No response from model'' status False)
               | Some [] \<Rightarrow> Inl (OpenRouterError ''No response from model'' status False)
               | Some (content # others) \<Rightarrow>
                   if content = [] then
                     Inl (OpenRouterError ''Empty response from model'' status False)
                   else Inr content)))"

text \<open>
  The environment of a run: what the transport does with the i-th request the client
  issues, whether the user sets the shared cancellation token while that request (or
  the back-off delay after it) is pending, and, of two requests in flight at once, which
  is answered first. The client's state: the number of requests issued so far, the call
  counter, the token's flag, and the chats that run on detached, each waiting for the
  answer to a request, after \<open>Promise.all\<close> was rejected by their sibling. The text of
  the messages sent decides only what the remote model answers, which the environment
  leaves arbitrary; the length of the back-off delay changes no result; neither is part
  of the model.
\<close>

record env =
  transport :: "nat \<Rightarrow> transport_outcome"
  cancelDuring :: "nat \<Rightarrow> bool"
  answersFirst :: "nat \<Rightarrow> nat \<Rightarrow> bool"

record pending_chat =
  awaited :: nat
  attempts_made :: nat
  token_set :: bool

record world =
  requests :: nat
  callCount :: nat
  cancelled :: bool
  background :: "pending_chat list"

datatype ModelRole = drafter | critic

definition makeRequest :: "env \<Rightarrow> world \<Rightarrow> (js_error + string) \<times> world" where
  "makeRequest e s =
     (handleResponse (transport e (requests s)),
      s\<lparr>requests := Suc (requests s),
        cancelled := cancelled s \<or> cancelDuring e (requests s)\<rparr>)"

function chat_loop :: "env \<Rightarrow> nat \<Rightarrow> js_error option \<Rightarrow> world \<Rightarrow> (js_error + string) \<times> world" where
  "chat_loop e attempt lastError s =
     (if attempt < MAX_RETRIES then
        if cancelled s then (Inl (Error ''Cancelled''), s)
        else (case makeRequest e s of
                (Inr result, s1) \<Rightarrow> (Inr result, s1\<lparr>callCount := Suc (callCount s1)\<rparr>)
              | (Inl err, s1) \<Rightarrow>
                  if isRetryable err then chat_loop e (Suc attempt) (Some err) s1
                  else (Inl err, s1))
      else (Inl (case lastError of
                   Some err \<Rightarrow> err
                 | None \<Rightarrow> Error ''Request failed after maximum retries''), s))"
  by pat_completeness auto
termination
  by (relation "measure (\<lambda>(e, attempt, lastError, s). MAX_RETRIES - attempt)") auto

declare chat_loop.simps [simp del]

definition chat :: "env \<Rightarrow> ModelRole \<Rightarrow> world \<Rightarrow> (js_error + string) \<times> world" where
  "chat e role s = chat_loop e 0 None s"

definition getCallCount :: "world \<Rightarrow> nat" where
  "getCallCount s = callCount s"


text \<open>
  The same \<open>chat\<close>, cut at its \<open>await\<close>, for the two calls that \<open>Promise.all\<close> runs at
  once. \<open>chat_begin\<close> is the call up to the first \<open>await\<close>: the token is tested and the
  first request goes out. \<open>chat_resume\<close> is what follows the answer to request \<open>k\<close> of
  attempt \<open>attempt\<close>: the result counted and returned, or the error thrown, or, after a
  retryable error and the back-off, the next turn of the loop up to its \<open>await\<close>. A task is
  a chat waiting for an answer, or one that has returned or thrown.
\<close>

datatype chat_task = Waiting nat nat | Settled "js_error + string"

definition chat_begin :: "env \<Rightarrow> world \<Rightarrow> chat_task \<times> world" where
  "chat_begin e s =
     (if 0 < MAX_RETRIES then
        if cancelled s then (Settled (Inl (Error ''Cancelled'')), s)
        else (Waiting (requests s) 0, s\<lparr>requests := Suc (requests s)\<rparr>)
      else (Settled (Inl (Error ''Request failed after maximum retries'')), s))"

definition chat_resume :: "env \<Rightarrow> nat \<Rightarrow> nat \<Rightarrow> world \<Rightarrow> chat_task \<times> world" where
  "chat_resume e k attempt s =
     (let s1 = s\<lparr>cancelled := cancelled s \<or> cancelDuring e k\<rparr> in
      case handleResponse (transport e k) of
        Inr result \<Rightarrow> (Settled (Inr result), s1\<lparr>callCount := Suc (callCount s1)\<rparr>)
      | Inl err \<Rightarrow>
          if isRetryable err then
            if Suc attempt < MAX_RETRIES then
              if cancelled s1 then (Settled (Inl (Error ''Cancelled'')), s1)
              else (Waiting (requests s1) (Suc attempt), s1\<lparr>requests := Suc (requests s1)\<rparr>)
            else (Settled (Inl err), s1)
          else (Settled (Inl err), s1))"

definition task_weight :: "chat_task \<Rightarrow> nat" where
  "task_weight task =
     (case task of Waiting k attempt \<Rightarrow> Suc (MAX_RETRIES - attempt) | Settled r \<Rightarrow> 0)"

text \<open>A task run on alone, answer after answer, until it has returned or thrown.\<close>

function run_task :: "env \<Rightarrow> chat_task \<Rightarrow> world \<Rightarrow> (js_error + string) \<times> world" where
  "run_task e task s =
     (case task of
        Settled r \<Rightarrow> (r, s)
      | Waiting k attempt \<Rightarrow>
          run_task e (fst (chat_resume e k attempt s)) (snd (chat_resume e k attempt s)))"
  by pat_completeness auto
termination
  by (relation "measure (\<lambda>(e, task, s). task_weight task)")
     (auto simp: task_weight_def chat_resume_def Let_def split: sum.splits)

declare run_task.simps [simp del]

text \<open>
  \<open>Promise.all\<close> of the drafter's and the critic's chat. It is rejected as soon as one of
  them has thrown, with that error, and resolved once both have returned. Until then
  the next answer to arrive resumes its chat; when both wait, the environment says which
  answer comes first. At a rejection the sibling that still waits is not stopped: it is
  detached, with the token it was given, and runs on in the background.
\<close>

definition detach :: "chat_task \<Rightarrow> world \<Rightarrow> world" where
  "detach task s =
     (case task of
        Waiting k attempt \<Rightarrow>
          s\<lparr>background := background s
               @ [\<lparr>awaited = k, attempts_made = attempt, token_set = cancelled s\<rparr>]\<rparr>
      | Settled r \<Rightarrow> s)"

function promise_all ::
  "env \<Rightarrow> chat_task \<Rightarrow> chat_task \<Rightarrow> world \<Rightarrow> (js_error + string \<times> string) \<times> world" where
  "promise_all e gptTask claudeTask s =
     (case gptTask of
        Settled (Inl err) \<Rightarrow> (Inl err, detach claudeTask s)
      | Settled (Inr gpt) \<Rightarrow>
          (case claudeTask of
             Settled (Inl err) \<Rightarrow> (Inl err, s)
           | Settled (Inr claude) \<Rightarrow> (Inr (gpt, claude), s)
           | Waiting k attempt \<Rightarrow>
               promise_all e gptTask (fst (chat_resume e k attempt s))
                 (snd (chat_resume e k attempt s)))
      | Waiting kg attemptg \<Rightarrow>
          (case claudeTask of
             Settled (Inl err) \<Rightarrow> (Inl err, detach gptTask s)
           | Settled (Inr claude) \<Rightarrow>
               promise_all e (fst (chat_resume e kg attemptg s)) claudeTask
                 (snd (chat_resume e kg attemptg s))
           | Waiting kc attemptc \<Rightarrow>
               if answersFirst e kg kc then
                 promise_all e (fst (chat_resume e kg attemptg s)) claudeTask
                   (snd (chat_resume e kg attemptg s))
               else
                 promise_all e gptTask (fst (chat_resume e kc attemptc s))
                   (snd (chat_resume e kc attemptc s))))"
  by pat_completeness auto
termination
  by (relation "measure (\<lambda>(e, gptTask, claudeTask, s). task_weight gptTask + task_weight claudeTask)")
     (auto simp: task_weight_def chat_resume_def Let_def split: sum.splits)

declare promise_all.simps [simp del]

text \<open>
  A detached chat finishes at a time of the environment's choosing. The model lets the
  detached chats finish between two sessions: \<open>settle_background\<close> runs each on to its
  end, under its own token, and the call counter takes its successes.
\<close>

definition settle_one :: "env \<Rightarrow> pending_chat \<Rightarrow> world \<Rightarrow> world" where
  "settle_one e p s =
     (snd (run_task e (Waiting (awaited p) (attempts_made p)) (s\<lparr>cancelled := token_set p\<rparr>)))
       \<lparr>cancelled := cancelled s\<rparr>"

definition settle_background :: "env \<Rightarrow> world \<Rightarrow> world" where
  "settle_background e s = fold (settle_one e) (background s) (s\<lparr>background := []\<rparr>)"


section \<open>The note parser (AtomicNoteParser)\<close>

record AtomicNote =
  heading :: string
  content :: string
  hasLink :: bool
  raw :: string

text \<open>\<open>s.split("\n")\<close>: the pieces between line feeds; never the empty array.\<close>

fun split_lines :: "string \<Rightarrow> string list" where
  "split_lines [] = [[]]"
| "split_lines (c # cs) =
     (if c = CHR 0x0A then [] # split_lines cs
      else (case split_lines cs of
              [] \<Rightarrow> [[c]]
            | l # ls \<Rightarrow> (c # l) # ls))"

text \<open>\<open>lines.join("\n")\<close>\<close>

fun join_lines :: "string list \<Rightarrow> string" where
  "join_lines [] = []"
| "join_lines [l] = l"
| "join_lines (l # ls) = l @ [CHR 0x0A] @ join_lines ls"

text \<open>
  \<open>modelOutput.split(/(?=^###\s)/m)\<close>. The look-ahead matches the empty string at a
  position that starts a line (the start of the text, or just after a line terminator)
  and is followed by \<open>###\<close> and a white-space character. \<open>split\<close> cuts at every such
  position except one where the current piece is still empty (the start of the text), and
  returns the single piece when there is no cut, also for the empty text.
\<close>

definition heading_ahead :: "string \<Rightarrow> bool" where
  "heading_ahead s =
     (prefix ''###'' s \<and> (case drop 3 s of [] \<Rightarrow> False | d # ds \<Rightarrow> isSpace d))"

fun split_sections_from :: "string \<Rightarrow> string \<Rightarrow> string list" where
  "split_sections_from piece [] = [piece]"
| "split_sections_from piece (c # cs) =
     (if piece \<noteq> [] \<and> isLineTerminator (last piece) \<and> heading_ahead (c # cs)
      then piece # split_sections_from [c] cs
      else split_sections_from (piece @ [c]) cs)"

definition split_sections :: "string \<Rightarrow> string list" where
  "split_sections modelOutput = split_sections_from [] modelOutput"

text \<open>\<open>headingLine.replace(/^###\s*/, "")\<close>\<close>

definition strip_heading_marker :: "string \<Rightarrow> string" where
  "strip_heading_marker headingLine =
     (if prefix ''###'' headingLine then dropWhile isSpace (drop 3 headingLine)
      else headingLine)"

text \<open>
  \<open>/\[.+?\]\(.+?\)/.test(content)\<close>: somewhere an opening bracket, one or more characters
  other than line terminators, \<open>](\<close>, one or more such characters again, and a closing
  parenthesis. \<open>link_url\<close> matches \<open>.+?\)\<close> at the start of its argument and
  \<open>link_text\<close> matches \<open>.+?\]\(.+?\)\<close>.
\<close>

fun link_url :: "string \<Rightarrow> bool" where
  "link_url [] = False"
| "link_url (c # cs) = (\<not> isLineTerminator c \<and> (prefix '')'' cs \<or> link_url cs))"

fun link_text :: "string \<Rightarrow> bool" where
  "link_text [] = False"
| "link_text (c # cs) =
     (\<not> isLineTerminator c \<and> ((prefix '']('' cs \<and> link_url (drop 2 cs)) \<or> link_text cs))"

fun link_test :: "string \<Rightarrow> bool" where
  "link_test [] = False"
| "link_test (c # cs) = ((c = CHR ''['' \<and> link_text cs) \<or> link_test cs)"

definition parseSection :: "string \<Rightarrow> AtomicNote option" where
  "parseSection section =
     (let lines = split_lines section in
      if length lines < 2 then None
      else
        let heading = trim (strip_heading_marker (hd lines)) in
        if heading = [] then None
        else
          let contentLines = filter (\<lambda>line. trim line \<noteq> []) (tl lines);
              content = trim (join_lines contentLines) in
          if content = [] then None
          else Some \<lparr>heading = heading, content = content,
                      hasLink = link_test content, raw = trim section\<rparr>)"

fun parse_sections :: "string list \<Rightarrow> AtomicNote list" where
  "parse_sections [] = []"
| "parse_sections (section # rest) =
     (let trimmed = trim section in
      if \<not> prefix ''###'' trimmed then parse_sections rest
      else (case parseSection trimmed of
              None \<Rightarrow> parse_sections rest
            | Some note \<Rightarrow> note # parse_sections rest))"

definition parse :: "string \<Rightarrow> AtomicNote list" where
  "parse modelOutput = parse_sections (split_sections modelOutput)"

section \<open>The interpretation phase (InterpretationPhase)\<close>

record InterpretationResult =
  aligned :: bool
  alignedInterpretation :: string
  gptInterpretation :: string
  claudeInterpretation :: string
  rounds :: nat

definition truncation_notice :: string where
  "truncation_notice = [CHR 0x0A, CHR 0x0A] @ ''[Content truncated for length]''"

text \<open>\<open>s.lastIndexOf(c)\<close>: the last index holding \<open>c\<close>, or \<open>-1\<close>.\<close>

definition lastIndexOf :: "string \<Rightarrow> char \<Rightarrow> int" where
  "lastIndexOf s c =
     (if c \<in> set s then int (length s) - 1 - int (length (takeWhile (\<lambda>x. x \<noteq> c) (rev s)))
      else - 1)"

text \<open>\<open>s.slice(0, end)\<close>: a negative \<open>end\<close> counts from the end of the string.\<close>

definition slice_to :: "string \<Rightarrow> int \<Rightarrow> string" where
  "slice_to s end =
     (let len = int (length s);
          to = (if end < 0 then max (len + end) 0 else min end len)
      in take (nat to) s)"

definition truncateContent :: "string \<Rightarrow> nat \<Rightarrow> string" where
  "truncateContent contents maxChars =
     (if length contents \<le> maxChars then contents
      else
        let truncated = take maxChars contents;
            lastSpace = lastIndexOf truncated (CHR '' '')
        in slice_to truncated lastSpace @ truncation_notice)"

text \<open>The character class \<open>[\s.,:\-\n]\<close> of \<open>afterKeyword.replace(/^[\s.,:\-\n]+/, "")\<close>.\<close>

definition isLeadingPunctuation :: "char \<Rightarrow> bool" where
  "isLeadingPunctuation c = (isSpace c \<or> c \<in> set ''.,:-'')"

fun extractAlignedSummary_loop :: "string list \<Rightarrow> string \<Rightarrow> string \<Rightarrow> string" where
  "extractAlignedSummary_loop [] trimmed fallback = fallback"
| "extractAlignedSummary_loop (keyword # keywords) trimmed fallback =
     (if prefix keyword (toUpperCase trimmed) then
        let afterKeyword = trim (drop (length keyword) trimmed);
            summary = trim (dropWhile isLeadingPunctuation afterKeyword)
        in if length summary > 50 then summary else fallback
      else extractAlignedSummary_loop keywords trimmed fallback)"

definition extractAlignedSummary :: "string \<Rightarrow> string \<Rightarrow> string" where
  "extractAlignedSummary response fallback =
     extractAlignedSummary_loop ALIGNMENT_KEYWORDS (trim response) fallback"

definition combineInterpretations :: "string \<Rightarrow> string \<Rightarrow> string" where
  "combineInterpretations gpt claude =
     ''Synthesized understanding from multiple perspectives:'' @ [CHR 0x0A, CHR 0x0A] @ gpt
       @ [CHR 0x0A, CHR 0x0A] @ ''Additional perspective:'' @ [CHR 0x0A] @ claude"


text \<open>
  \<open>InterpretationPhase.run\<close>. A \<open>throw\<close> is the \<open>Inl\<close> result. The two initial chats
  are begun in the same turn, so both test the token as it is then and both first
  requests go out; \<open>Promise.all\<close> then waits for them. The loop is the
  \<open>while (round < this.maxRounds)\<close> of the source: the critic is shown the drafter's
  interpretation, then (after \<open>round++\<close> and the \<open>break\<close> test) the drafter is shown the
  critic's.
\<close>

definition synthesized :: "string \<Rightarrow> string \<Rightarrow> nat \<Rightarrow> InterpretationResult" where
  "synthesized gpt claude maxRounds =
     \<lparr>aligned = False, alignedInterpretation = combineInterpretations gpt claude,
      gptInterpretation = gpt, claudeInterpretation = claude, rounds = maxRounds\<rparr>"

function alignment_loop ::
  "env \<Rightarrow> nat \<Rightarrow> nat \<Rightarrow> string \<Rightarrow> string \<Rightarrow> world \<Rightarrow> (js_error + InterpretationResult) \<times> world" where
  "alignment_loop e maxRounds round currentGpt currentClaude s =
     (if round < maxRounds then
        if cancelled s then (Inl (Error ''Cancelled''), s)
        else (case chat e critic s of
                (Inl err, s1) \<Rightarrow> (Inl err, s1)
              | (Inr claudeResponse, s1) \<Rightarrow>
                  if cancelled s1 then (Inl (Error ''Cancelled''), s1)
                  else if isAligned claudeResponse then
                    (Inr \<lparr>aligned = True,
                          alignedInterpretation = extractAlignedSummary claudeResponse currentGpt,
                          gptInterpretation = currentGpt,
                          claudeInterpretation = currentClaude,
                          rounds = round + 1\<rparr>, s1)
                  else if round + 1 \<ge> maxRounds then
                    (Inr (synthesized currentGpt claudeResponse maxRounds), s1)
                  else (case chat e drafter s1 of
                          (Inl err, s2) \<Rightarrow> (Inl err, s2)
                        | (Inr gptResponse, s2) \<Rightarrow>
                            if cancelled s2 then (Inl (Error ''Cancelled''), s2)
                            else if isAligned gptResponse then
                              (Inr \<lparr>aligned = True,
                                    alignedInterpretation =
                                      extractAlignedSummary gptResponse claudeResponse,
                                    gptInterpretation = currentGpt,
                                    claudeInterpretation = claudeResponse,
                                    rounds = round + 2\<rparr>, s2)
                            else alignment_loop e maxRounds (round + 2) gptResponse claudeResponse s2))
      else (Inr (synthesized currentGpt currentClaude maxRounds), s))"
  by pat_completeness auto
termination
  by (relation "measure (\<lambda>(e, maxRounds, round, g, c, s). maxRounds - round)") auto

declare alignment_loop.simps [simp del]

definition interpretation_run :: "env \<Rightarrow> nat \<Rightarrow> world \<Rightarrow> (js_error + InterpretationResult) \<times> world" where
  "interpretation_run e maxRounds s =
     (if cancelled s then (Inl (Error ''Cancelled''), s)
      else
        let (gptTask, s1) = chat_begin e s;
            (claudeTask, s2) = chat_begin e s1
        in (case promise_all e gptTask claudeTask s2 of
              (Inl err, s3) \<Rightarrow> (Inl err, s3)
            | (Inr (gpt, claude), s3) \<Rightarrow>
                if cancelled s3 then (Inl (Error ''Cancelled''), s3)
                else alignment_loop e maxRounds 1 gpt claude s3))"

section \<open>The refinement loop (RefinementLoop)\<close>

datatype entry_type = draft | critique | revision

record TranscriptEntry =
  entry_phase :: string
  entry_role :: ModelRole
  entry_kind :: entry_type
  entry_content :: string
  entry_round :: nat

record RefinementResult =
  "notes" :: "AtomicNote list"
  rounds_used :: nat
  approved :: bool
  transcript :: "TranscriptEntry list"

definition transcript_entry :: "ModelRole \<Rightarrow> entry_type \<Rightarrow> string \<Rightarrow> nat \<Rightarrow> TranscriptEntry" where
  "transcript_entry role kind text n =
     \<lparr>entry_phase = ''refinement'', entry_role = role, entry_kind = kind,
      entry_content = text, entry_round = n\<rparr>"

text \<open>
  The \<open>while (round < this.maxRounds)\<close> loop of \<open>RefinementLoop.run\<close>: critique, the
  classification, \<open>round++\<close>, the \<open>break\<close> when the budget is reached, and otherwise the
  revision, parsed like every draft.
\<close>

function refinement_loop ::
  "env \<Rightarrow> nat \<Rightarrow> nat \<Rightarrow> string \<Rightarrow> AtomicNote list \<Rightarrow> TranscriptEntry list \<Rightarrow> world
     \<Rightarrow> (js_error + RefinementResult) \<times> world" where
  "refinement_loop e maxRounds round currentDraft currentNotes log s =
     (if round < maxRounds then
        if cancelled s then (Inl (Error ''Cancelled''), s)
        else (case chat e critic s of
                (Inl err, s1) \<Rightarrow> (Inl err, s1)
              | (Inr review, s1) \<Rightarrow>
                  if cancelled s1 then (Inl (Error ''Cancelled''), s1)
                  else
                    let log1 = log @ [transcript_entry critic critique review (round + 1)];
                        status = parseCritiqueStatus review
                    in if status = Approved \<or> status = Marginal then
                         (Inr \<lparr>notes = currentNotes, rounds_used = round + 1,
                               approved = True, transcript = log1\<rparr>, s1)
                       else if round + 1 \<ge> maxRounds then
                         (Inr \<lparr>notes = currentNotes, rounds_used = maxRounds,
                               approved = False, transcript = log1\<rparr>, s1)
                       else (case chat e drafter s1 of
                               (Inl err, s2) \<Rightarrow> (Inl err, s2)
                             | (Inr revised, s2) \<Rightarrow>
                                 if cancelled s2 then (Inl (Error ''Cancelled''), s2)
                                 else refinement_loop e maxRounds (round + 1) revised (parse revised)
                                        (log1 @ [transcript_entry drafter revision revised (round + 2)])
                                        s2))
      else (Inr \<lparr>notes = currentNotes, rounds_used = maxRounds,
                 approved = False, transcript = log\<rparr>, s))"
  by pat_completeness auto
termination
  by (relation "measure (\<lambda>(e, maxRounds, round, d, n, l, s). maxRounds - round)") auto

declare refinement_loop.simps [simp del]

definition refinement_run :: "env \<Rightarrow> nat \<Rightarrow> world \<Rightarrow> (js_error + RefinementResult) \<times> world" where
  "refinement_run e maxRounds s =
     (if cancelled s then (Inl (Error ''Cancelled''), s)
      else (case chat e drafter s of
              (Inl err, s1) \<Rightarrow> (Inl err, s1)
            | (Inr currentDraft, s1) \<Rightarrow>
                if cancelled s1 then (Inl (Error ''Cancelled''), s1)
                else refinement_loop e maxRounds 0 currentDraft (parse currentDraft)
                       [transcript_entry drafter draft currentDraft 1] s1))"

section \<open>The orchestrator (DialogueOrchestrator)\<close>

datatype DialoguePhase =
  phase_interpreting | phase_aligned | phase_drafting | phase_refining | phase_complete | phase_error

record DialogueState =
  phase :: DialoguePhase
  interpretationRounds :: nat
  refinementRounds :: nat
  state_claudeInterpretation :: "string option"
  state_gptInterpretation :: "string option"
  state_alignedInterpretation :: "string option"
  currentDraft :: "AtomicNote list option"
  currentCritique :: "string option"
  error :: "string option"

record 'a DialogueResult =
  article :: 'a
  state :: DialogueState
  atomicNotes :: "AtomicNote list"
  totalApiCalls :: nat

definition initial_state :: DialogueState where
  "initial_state =
     \<lparr>phase = phase_interpreting, interpretationRounds = 0, refinementRounds = 0,
      state_claudeInterpretation = None, state_gptInterpretation = None,
      state_alignedInterpretation = None, currentDraft = None, currentCritique = None,
      error = None\<rparr>"

text \<open>The \<open>catch\<close> block of \<open>process\<close>: \<open>state.currentDraft || []\<close> is the partial result.\<close>

definition process_catch :: "'a \<Rightarrow> DialogueState \<Rightarrow> js_error \<Rightarrow> world \<Rightarrow> 'a DialogueResult \<times> world" where
  "process_catch art st err s =
     (\<lparr>article = art,
       state = st\<lparr>phase := phase_error, error := Some (message err)\<rparr>,
       atomicNotes = (case currentDraft st of Some d \<Rightarrow> d | None \<Rightarrow> []),
       totalApiCalls = getCallCount s\<rparr>, s)"

text \<open>
  \<open>process\<close>, for an orchestrator built with the given round limits. The article is
  handed through to the result; the phases read it only to word their prompts.
\<close>

definition process :: "env \<Rightarrow> nat \<Rightarrow> nat \<Rightarrow> 'a \<Rightarrow> world \<Rightarrow> 'a DialogueResult \<times> world" where
  "process e maxInterpretationRounds maxRefinementRounds art s =
     (case interpretation_run e maxInterpretationRounds s of
        (Inl err, s1) \<Rightarrow> process_catch art initial_state err s1
      | (Inr interpretationResult, s1) \<Rightarrow>
          let st1 = initial_state
                \<lparr>interpretationRounds := rounds interpretationResult,
                 state_gptInterpretation := Some (gptInterpretation interpretationResult),
                 state_claudeInterpretation := Some (claudeInterpretation interpretationResult),
                 state_alignedInterpretation := Some (alignedInterpretation interpretationResult),
                 phase := phase_aligned\<rparr>
          in if cancelled s1 then process_catch art st1 (Error ''Cancelled'') s1
             else
               let st2 = st1\<lparr>phase := phase_drafting\<rparr> in
               (case refinement_run e maxRefinementRounds s1 of
                  (Inl err, s2) \<Rightarrow> process_catch art st2 err s2
                | (Inr refinementResult, s2) \<Rightarrow>
                    (\<lparr>article = art,
                      state = st2\<lparr>refinementRounds := rounds_used refinementResult,
                                 currentDraft := Some (notes refinementResult),
                                 phase := phase_complete\<rparr>,
                      atomicNotes = notes refinementResult,
                      totalApiCalls = getCallCount s2\<rparr>, s2)))"


definition getApiCallCount :: "world \<Rightarrow> nat" where
  "getApiCallCount s = getCallCount s"

section \<open>The earlier revision of the classifiers\<close>

text \<open>
  The repository also holds the revision of \<open>isAligned\<close> and \<open>parseCritiqueStatus\<close> that
  preceded the keyword tables: it searches the upper-cased response for a keyword
  anywhere.
\<close>

definition isAligned_early :: "string \<Rightarrow> bool" where
  "isAligned_early response =
     (let upperResponse = toUpperCase response in
      str_includes upperResponse ''ALIGNED'' \<or> str_includes upperResponse ''I AGREE''
        \<or> str_includes upperResponse ''WE AGREE'')"

definition parseCritiqueStatus_early :: "string \<Rightarrow> critique_status" where
  "parseCritiqueStatus_early review =
     (let upperCritique = trim (toUpperCase review) in
      if prefix ''APPROVED'' upperCritique \<or> upperCritique = ''APPROVED'' then Approved
      else if prefix ''MARGINAL'' upperCritique \<or> str_includes upperCritique ''MARGINAL''
      then Marginal
      else NeedsWork)"


section \<open>Vocabulary of the properties\<close>

text \<open>
  The failures of one request, in the words of the specification. Retryable: the
  endpoint was not reached, or the status is one of the retryable codes. Terminal: any
  other status than 200, or a 200 response that carries an error envelope, no choices,
  or an empty first content.
\<close>

definition retryable_failure :: "transport_outcome \<Rightarrow> bool" where
  "retryable_failure outcome =
     (case outcome of
        NetworkFailure \<Rightarrow> True
      | HttpResponse status data \<Rightarrow> status \<in> {429, 502, 503, 504})"

definition terminal_failure :: "transport_outcome \<Rightarrow> bool" where
  "terminal_failure outcome =
     (case outcome of
        NetworkFailure \<Rightarrow> False
      | HttpResponse status data \<Rightarrow>
          if status = 200 then
            body_error data \<noteq> None \<or>
            (case body_choices data of
               None \<Rightarrow> True
             | Some [] \<Rightarrow> True
             | Some (c # cs) \<Rightarrow> c = [])
          else status \<notin> {429, 502, 503, 504})"

text \<open>The text a request brings back, when it succeeds.\<close>

definition reply :: "env \<Rightarrow> nat \<Rightarrow> string option" where
  "reply e i = (case handleResponse (transport e i) of Inl err \<Rightarrow> None | Inr text \<Rightarrow> Some text)"

text \<open>The number of successful requests among those numbered from \<open>a\<close> up to \<open>b\<close>.\<close>

definition successful_requests :: "env \<Rightarrow> nat \<Rightarrow> nat \<Rightarrow> nat" where
  "successful_requests e a b = length (filter (\<lambda>i. reply e i \<noteq> None) [a..<b])"

text \<open>
  A chat that waits for the answer to a request owes the call counter one when that
  request succeeds: the counter is raised only once the answer has been handled.
  \<open>owed\<close> counts what the detached chats of a client state owe.
\<close>

definition owed_by :: "env \<Rightarrow> chat_task \<Rightarrow> nat" where
  "owed_by e task =
     (case task of
        Waiting k attempt \<Rightarrow> (if reply e k = None then 0 else 1)
      | Settled r \<Rightarrow> 0)"

definition owed :: "env \<Rightarrow> world \<Rightarrow> nat" where
  "owed e s = length (filter (\<lambda>p. reply e (awaited p) \<noteq> None) (background s))"

text \<open>
  \<open>accounted e s s'\<close>: between the client states \<open>s\<close> and \<open>s'\<close> the call counter,
  together with what the detached chats owe it, grew by the number of successful
  requests issued in between.
\<close>

definition accounted :: "env \<Rightarrow> world \<Rightarrow> world \<Rightarrow> bool" where
  "accounted e s s' =
     (requests s \<le> requests s' \<and>
      callCount s' + owed e s' =
        callCount s + owed e s + successful_requests e (requests s) (requests s'))"

text \<open>
  A heading marker in a text, as the specification words it: a line-initial marker of
  the fixed level, that is \<open>###\<close> and a white-space character at the start of a line (the
  \<open>^###\s\<close> the parser splits on). \<open>heading_scan\<close> walks the text; its flag says that a
  line starts here.
\<close>

fun heading_scan :: "bool \<Rightarrow> string \<Rightarrow> bool" where
  "heading_scan lineStart [] = False"
| "heading_scan lineStart (c # cs) =
     ((lineStart \<and> heading_ahead (c # cs)) \<or> heading_scan (isLineTerminator c) cs)"

definition has_heading_marker :: "string \<Rightarrow> bool" where
  "has_heading_marker modelOutput = heading_scan True modelOutput"

text \<open>
  What the parser takes for the start of a note is wider: a line that begins, after
  white space only, with \<open>###\<close>, whatever follows. \<open>hashes_scan\<close> walks the text; its flag
  says that only white space has been seen since the current line began.
\<close>

fun hashes_scan :: "bool \<Rightarrow> string \<Rightarrow> bool" where
  "hashes_scan lineStart [] = False"
| "hashes_scan lineStart (c # cs) =
     ((lineStart \<and> prefix ''###'' (c # cs))
      \<or> hashes_scan (isLineTerminator c \<or> (lineStart \<and> isSpace c)) cs)"

definition has_line_of_hashes :: "string \<Rightarrow> bool" where
  "has_line_of_hashes modelOutput = hashes_scan True modelOutput"

text \<open>
  A markdown-style link inside a text, as the specification words it: \<open>[text](url)\<close>
  with a non-empty text and a non-empty url.
\<close>

definition contains_markdown_link :: "string \<Rightarrow> bool" where
  "contains_markdown_link body =
     (\<exists>before label url after.
        body = before @ ''['' @ label @ '']('' @ url @ '')'' @ after
        \<and> label \<noteq> [] \<and> url \<noteq> [])"

text \<open>The same with the text and the url each on one line.\<close>

definition contains_one_line_link :: "string \<Rightarrow> bool" where
  "contains_one_line_link body =
     (\<exists>before label url after.
        body = before @ ''['' @ label @ '']('' @ url @ '')'' @ after
        \<and> label \<noteq> [] \<and> url \<noteq> []
        \<and> \<not> list_ex isLineTerminator label \<and> \<not> list_ex isLineTerminator url)"

text \<open>
  What follows the keyword \<open>ALIGNED\<close> in a response, stripped of leading punctuation and
  white space.
\<close>

definition aligned_remainder :: "string \<Rightarrow> string" where
  "aligned_remainder response =
     trim (dropWhile isLeadingPunctuation (trim (drop (length ''ALIGNED'') (trim response))))"

section \<open>Example environments\<close>

definition fresh_client :: world where
  "fresh_client = \<lparr>requests = 0, callCount = 0, cancelled = False, background = []\<rparr>"

definition ok_response :: "string \<Rightarrow> transport_outcome" where
  "ok_response text = HttpResponse 200 \<lparr>body_error = None, body_choices = Some [text]\<rparr>"

definition status_response :: "nat \<Rightarrow> transport_outcome" where
  "status_response status = HttpResponse status \<lparr>body_error = None, body_choices = None\<rparr>"

text \<open>
  A transport that plays a script: the i-th request gets the i-th outcome of the list,
  every later one gets \<open>otherwise\<close>; the user never cancels; answers come in the order
  of their requests.
\<close>

definition scripted :: "transport_outcome list \<Rightarrow> transport_outcome \<Rightarrow> env" where
  "scripted outcomes otherwise =
     \<lparr>transport = (\<lambda>i. if i < length outcomes then outcomes ! i else otherwise),
      cancelDuring = (\<lambda>i. False),
      answersFirst = (\<lambda>a b. a < b)\<rparr>"

section \<open>Facts about strings\<close>

lemma startsWithAny_iff: "startsWithAny ks t \<longleftrightarrow> (\<exists>k\<in>set ks. prefix k t)"
  by (induction ks) auto

lemma isSpace_toUpperChar: "isSpace (toUpperChar c) = isSpace c"
proof (cases "map_of upper_table c")
  case None
  then show ?thesis by (simp add: toUpperChar_def)
next
  case (Some u)
  then have "(c, u) \<in> set upper_table" by (rule map_of_SomeD)
  then have "\<not> isSpace c \<and> \<not> isSpace u"
    by (auto simp: upper_table_def isSpace_def)
  with Some show ?thesis by (simp add: toUpperChar_def)
qed

lemma trimEnd_append_keeps:
  assumes "k \<noteq> []" "\<not> isSpace (last k)"
  shows "prefix k (trimEnd (k @ t))"
proof -
  have "dropWhile isSpace (rev t @ rev k) =
        (if \<forall>x\<in>set (rev t). isSpace x then dropWhile isSpace (rev k) else dropWhile isSpace (rev t) @ rev k)"
    by (simp add: dropWhile_append)
  moreover have "dropWhile isSpace (rev k) = rev k"
    using assms by (cases k rule: rev_cases) auto
  ultimately show ?thesis
    by (auto simp: trimEnd_def)
qed

lemma trim_keeps_prefix:
  assumes "k \<noteq> []" "\<not> isSpace (hd k)" "\<not> isSpace (last k)" "\<forall>c\<in>set ws. isSpace c"
  shows "prefix k (trim (ws @ k @ t))"
proof -
  have "dropWhile isSpace (ws @ k @ t) = dropWhile isSpace (k @ t)"
    using assms(4) by (simp add: dropWhile_append)
  also have "\<dots> = k @ t"
    using assms(1,2) by (cases k) auto
  finally show ?thesis
    using trimEnd_append_keeps[OF assms(1,3)] by (simp add: trim_def trimStart_def)
qed

lemma keyword_shape:
  assumes "k \<in> set (ALIGNMENT_KEYWORDS @ APPROVAL_KEYWORDS @ MARGINAL_KEYWORDS)"
  shows "k \<noteq> [] \<and> \<not> isSpace (hd k) \<and> \<not> isSpace (last k)"
  using assms
  by (auto simp: ALIGNMENT_KEYWORDS_def APPROVAL_KEYWORDS_def MARGINAL_KEYWORDS_def isSpace_def)

lemma upper_keyword_shape:
  assumes "toUpperCase h = k" "k \<noteq> []" "\<not> isSpace (hd k)" "\<not> isSpace (last k)"
  shows "h \<noteq> [] \<and> \<not> isSpace (hd h) \<and> \<not> isSpace (last h)"
proof -
  from assms(1,2) have ne: "h \<noteq> []" by (auto simp: toUpperCase_def)
  then have "hd k = toUpperChar (hd h)" "last k = toUpperChar (last h)"
    using assms(1) by (auto simp: toUpperCase_def hd_map last_map)
  with assms(3,4) ne show ?thesis by (simp add: isSpace_toUpperChar)
qed

lemma starts_after_spaces:
  assumes k: "k \<in> set (ALIGNMENT_KEYWORDS @ APPROVAL_KEYWORDS @ MARGINAL_KEYWORDS)"
    and h: "toUpperCase h = k" and ws: "\<forall>c\<in>set ws. isSpace c"
  shows "prefix k (toUpperCase (trim (ws @ h @ t)))"
proof -
  from keyword_shape[OF k] upper_keyword_shape[OF h]
  have "h \<noteq> []" "\<not> isSpace (hd h)" "\<not> isSpace (last h)" by auto
  from trim_keeps_prefix[OF this ws] obtain r where "trim (ws @ h @ t) = h @ r"
    by (auto simp: prefix_def)
  then show ?thesis using h by (simp add: toUpperCase_def)
qed

section \<open>C1: alignment is a strict prefix match\<close>

text \<open>
  C1. A response that mentions \<open>aligned\<close> somewhere, but whose trimmed, upper-cased form
  does not start with an alignment keyword, is not classified as aligned. A response
  whose trimmed, upper-cased form starts with an alignment keyword is classified as
  aligned, whatever follows the keyword: leading white space, a keyword in any letter
  case, and then any text at all.
\<close>

theorem isAligned_strict_prefix:
  "(str_includes (toUpperCase response) ''ALIGNED''
      \<and> \<not> (\<exists>k\<in>set ALIGNMENT_KEYWORDS. prefix k (toUpperCase (trim response)))
      \<longrightarrow> \<not> isAligned response)
   \<and> ((\<exists>k\<in>set ALIGNMENT_KEYWORDS. prefix k (toUpperCase (trim response)))
      \<longrightarrow> isAligned response)
   \<and> (\<forall>k\<in>set ALIGNMENT_KEYWORDS. \<forall>ws h rest.
        (\<forall>c\<in>set ws. isSpace c) \<and> toUpperCase h = k \<longrightarrow> isAligned (ws @ h @ rest))"
proof (intro conjI)
  show "str_includes (toUpperCase response) ''ALIGNED''
      \<and> \<not> (\<exists>k\<in>set ALIGNMENT_KEYWORDS. prefix k (toUpperCase (trim response)))
      \<longrightarrow> \<not> isAligned response"
    by (simp add: isAligned_def startsWithAny_iff)
  show "(\<exists>k\<in>set ALIGNMENT_KEYWORDS. prefix k (toUpperCase (trim response)))
      \<longrightarrow> isAligned response"
    by (simp add: isAligned_def startsWithAny_iff)
  show "\<forall>k\<in>set ALIGNMENT_KEYWORDS. \<forall>ws h rest.
        (\<forall>c\<in>set ws. isSpace c) \<and> toUpperCase h = k \<longrightarrow> isAligned (ws @ h @ rest)"
  proof (intro ballI allI impI)
    fix k ws h rest
    assume k: "k \<in> set ALIGNMENT_KEYWORDS"
      and "(\<forall>c\<in>set ws. isSpace c) \<and> toUpperCase h = k"
    then have "prefix k (toUpperCase (trim (ws @ h @ rest)))"
      using starts_after_spaces[of k h ws rest] by simp
    with k show "isAligned (ws @ h @ rest)"
      unfolding isAligned_def startsWithAny_iff by blast
  qed
qed

theorem isAligned_strict_prefix_witness:
  "str_includes (toUpperCase ''The two readings are not aligned yet.'') ''ALIGNED''
   \<and> \<not> (\<exists>k\<in>set ALIGNMENT_KEYWORDS.
         prefix k (toUpperCase (trim ''The two readings are not aligned yet.'')))
   \<and> \<not> isAligned ''The two readings are not aligned yet.''
   \<and> (\<exists>k\<in>set ALIGNMENT_KEYWORDS. prefix k (toUpperCase (trim ''  we are aligned: same thesis '')))
   \<and> isAligned ''  we are aligned: same thesis ''
   \<and> ''ALIGNED'' \<in> set ALIGNMENT_KEYWORDS
   \<and> list_all isSpace [CHR 0x0A, CHR '' ''] \<and> toUpperCase ''Aligned'' = ''ALIGNED''
   \<and> isAligned ([CHR 0x0A, CHR '' ''] @ ''Aligned'' @ ''. But not aligned on the details.'')"
proof -
  have a: "str_includes (toUpperCase ''The two readings are not aligned yet.'') ''ALIGNED''"
    by (simp add: toUpperCase_def toUpperChar_def upper_table_def)
  have b: "\<not> (\<exists>k\<in>set ALIGNMENT_KEYWORDS.
         prefix k (toUpperCase (trim ''The two readings are not aligned yet.'')))"
    by (simp add: ALIGNMENT_KEYWORDS_def trim_def trimStart_def trimEnd_def isSpace_def
        toUpperCase_def toUpperChar_def upper_table_def)
  have c: "\<exists>k\<in>set ALIGNMENT_KEYWORDS. prefix k (toUpperCase (trim ''  we are aligned: same thesis ''))"
    by (simp add: ALIGNMENT_KEYWORDS_def trim_def trimStart_def trimEnd_def isSpace_def
        toUpperCase_def toUpperChar_def upper_table_def)
  have d: "''ALIGNED'' \<in> set ALIGNMENT_KEYWORDS" by (simp add: ALIGNMENT_KEYWORDS_def)
  have e: "(\<forall>c\<in>set [CHR 0x0A, CHR '' '']. isSpace c) \<and> toUpperCase ''Aligned'' = ''ALIGNED''"
    by (simp add: isSpace_def toUpperCase_def toUpperChar_def upper_table_def)
  note t = isAligned_strict_prefix
  from t[of "''The two readings are not aligned yet.''"] a b
  have 1: "\<not> isAligned ''The two readings are not aligned yet.''" by blast
  from t[of "''  we are aligned: same thesis ''"] c
  have 2: "isAligned ''  we are aligned: same thesis ''" by blast
  from t[of "[]"] d e
  have 3: "isAligned ([CHR 0x0A, CHR '' ''] @ ''Aligned'' @ ''. But not aligned on the details.'')"
    by blast
  from a b c d e 1 2 3 show ?thesis by (simp add: list_all_iff)
qed

section \<open>C2: critiques are classified by a strict prefix match\<close>

text \<open>
  C2. \<open>parseCritiqueStatus\<close> answers approved or marginal only for a critique whose
  trimmed, upper-cased text starts with an approval or a marginal keyword. Every other
  critique, one that mentions a keyword further on included, is classified as needing
  work; and a critique that does start with a keyword is never classified as needing work.
\<close>

theorem parseCritiqueStatus_strict_prefix:
  "(parseCritiqueStatus review = Approved \<or> parseCritiqueStatus review = Marginal
      \<longrightarrow> (\<exists>k\<in>set (APPROVAL_KEYWORDS @ MARGINAL_KEYWORDS). prefix k (toUpperCase (trim review))))
   \<and> (\<not> (\<exists>k\<in>set (APPROVAL_KEYWORDS @ MARGINAL_KEYWORDS). prefix k (toUpperCase (trim review)))
      \<longrightarrow> parseCritiqueStatus review = NeedsWork)
   \<and> (\<forall>k\<in>set (APPROVAL_KEYWORDS @ MARGINAL_KEYWORDS). \<forall>ws h rest.
        (\<forall>c\<in>set ws. isSpace c) \<and> toUpperCase h = k
        \<longrightarrow> parseCritiqueStatus (ws @ h @ rest) \<noteq> NeedsWork)"
proof (intro conjI)
  show "parseCritiqueStatus review = Approved \<or> parseCritiqueStatus review = Marginal
      \<longrightarrow> (\<exists>k\<in>set (APPROVAL_KEYWORDS @ MARGINAL_KEYWORDS). prefix k (toUpperCase (trim review)))"
    by (auto simp: parseCritiqueStatus_def Let_def startsWithAny_iff split: if_splits)
  show "\<not> (\<exists>k\<in>set (APPROVAL_KEYWORDS @ MARGINAL_KEYWORDS). prefix k (toUpperCase (trim review)))
      \<longrightarrow> parseCritiqueStatus review = NeedsWork"
    by (auto simp: parseCritiqueStatus_def Let_def startsWithAny_iff)
  show "\<forall>k\<in>set (APPROVAL_KEYWORDS @ MARGINAL_KEYWORDS). \<forall>ws h rest.
        (\<forall>c\<in>set ws. isSpace c) \<and> toUpperCase h = k
        \<longrightarrow> parseCritiqueStatus (ws @ h @ rest) \<noteq> NeedsWork"
  proof (intro ballI allI impI)
    fix k ws h rest
    assume k: "k \<in> set (APPROVAL_KEYWORDS @ MARGINAL_KEYWORDS)"
      and "(\<forall>c\<in>set ws. isSpace c) \<and> toUpperCase h = k"
    then have "prefix k (toUpperCase (trim (ws @ h @ rest)))"
      using starts_after_spaces[of k h ws rest] by simp
    with k show "parseCritiqueStatus (ws @ h @ rest) \<noteq> NeedsWork"
      by (auto simp: parseCritiqueStatus_def Let_def startsWithAny_iff)
  qed
qed

theorem parseCritiqueStatus_strict_prefix_witness:
  "parseCritiqueStatus ''approved. Ready for use.'' = Approved
   \<and> (\<exists>k\<in>set (APPROVAL_KEYWORDS @ MARGINAL_KEYWORDS).
         prefix k (toUpperCase (trim ''approved. Ready for use.'')))
   \<and> str_includes (toUpperCase ''Note 2 is not yet approved; the gain is marginal.'') ''APPROVED''
   \<and> \<not> (\<exists>k\<in>set (APPROVAL_KEYWORDS @ MARGINAL_KEYWORDS).
         prefix k (toUpperCase (trim ''Note 2 is not yet approved; the gain is marginal.'')))
   \<and> parseCritiqueStatus ''Note 2 is not yet approved; the gain is marginal.'' = NeedsWork
   \<and> ''MARGINAL'' \<in> set (APPROVAL_KEYWORDS @ MARGINAL_KEYWORDS)
   \<and> list_all isSpace [CHR '' ''] \<and> toUpperCase ''Marginal'' = ''MARGINAL''
   \<and> parseCritiqueStatus ([CHR '' ''] @ ''Marginal'' @ '' gains only.'') \<noteq> NeedsWork"
proof -
  have a: "parseCritiqueStatus ''approved. Ready for use.'' = Approved"
    by (simp add: parseCritiqueStatus_def APPROVAL_KEYWORDS_def trim_def trimStart_def
        trimEnd_def isSpace_def toUpperCase_def toUpperChar_def upper_table_def)
  have b: "str_includes (toUpperCase ''Note 2 is not yet approved; the gain is marginal.'') ''APPROVED''"
    by (simp add: toUpperCase_def toUpperChar_def upper_table_def)
  have c: "\<not> (\<exists>k\<in>set (APPROVAL_KEYWORDS @ MARGINAL_KEYWORDS).
         prefix k (toUpperCase (trim ''Note 2 is not yet approved; the gain is marginal.'')))"
    by (simp add: APPROVAL_KEYWORDS_def MARGINAL_KEYWORDS_def trim_def trimStart_def
        trimEnd_def isSpace_def toUpperCase_def toUpperChar_def upper_table_def)
  have d: "''MARGINAL'' \<in> set (APPROVAL_KEYWORDS @ MARGINAL_KEYWORDS)"
    by (simp add: MARGINAL_KEYWORDS_def)
  have e: "(\<forall>c\<in>set [CHR '' '']. isSpace c) \<and> toUpperCase ''Marginal'' = ''MARGINAL''"
    by (simp add: isSpace_def toUpperCase_def toUpperChar_def upper_table_def)
  note t = parseCritiqueStatus_strict_prefix
  from t[of "''approved. Ready for use.''"] a
  have 1: "\<exists>k\<in>set (APPROVAL_KEYWORDS @ MARGINAL_KEYWORDS).
         prefix k (toUpperCase (trim ''approved. Ready for use.''))" by blast
  from t[of "''Note 2 is not yet approved; the gain is marginal.''"] c
  have 2: "parseCritiqueStatus ''Note 2 is not yet approved; the gain is marginal.'' = NeedsWork"
    by blast
  from t[of "[]"] d e
  have 3: "parseCritiqueStatus ([CHR '' ''] @ ''Marginal'' @ '' gains only.'') \<noteq> NeedsWork"
    by blast
  from a b c d e 1 2 3 show ?thesis by (simp add: list_all_iff)
qed

section \<open>The request layer\<close>

lemma chat_loop_cancelled:
  "attempt < MAX_RETRIES \<Longrightarrow> cancelled s \<Longrightarrow>
   chat_loop e attempt lastError s = (Inl (Error ''Cancelled''), s)"
  by (subst chat_loop.simps) simp

lemma chat_loop_exhausted:
  "\<not> attempt < MAX_RETRIES \<Longrightarrow>
   chat_loop e attempt (Some err) s = (Inl err, s)"
  by (subst chat_loop.simps) simp

lemma chat_loop_success:
  "attempt < MAX_RETRIES \<Longrightarrow> \<not> cancelled s \<Longrightarrow>
   handleResponse (transport e (requests s)) = Inr text \<Longrightarrow>
   chat_loop e attempt lastError s =
     (Inr text, s\<lparr>requests := Suc (requests s), cancelled := cancelDuring e (requests s),
                  callCount := Suc (callCount s)\<rparr>)"
  by (subst chat_loop.simps) (simp add: makeRequest_def)

lemma chat_loop_terminal:
  "attempt < MAX_RETRIES \<Longrightarrow> \<not> cancelled s \<Longrightarrow>
   handleResponse (transport e (requests s)) = Inl err \<Longrightarrow> \<not> isRetryable err \<Longrightarrow>
   chat_loop e attempt lastError s =
     (Inl err, s\<lparr>requests := Suc (requests s), cancelled := cancelDuring e (requests s)\<rparr>)"
  by (subst chat_loop.simps) (simp add: makeRequest_def)

lemma chat_loop_retry:
  "attempt < MAX_RETRIES \<Longrightarrow> \<not> cancelled s \<Longrightarrow>
   handleResponse (transport e (requests s)) = Inl err \<Longrightarrow> isRetryable err \<Longrightarrow>
   chat_loop e attempt lastError s =
     chat_loop e (Suc attempt) (Some err)
       (s\<lparr>requests := Suc (requests s), cancelled := cancelDuring e (requests s)\<rparr>)"
  by (subst chat_loop.simps) (simp add: makeRequest_def)

lemma retryable_failure_handled:
  "retryable_failure outcome \<Longrightarrow> \<exists>err. handleResponse outcome = Inl err \<and> isRetryable err"
  by (auto simp: retryable_failure_def handleResponse_def handleHttpError_def Let_def
      RETRYABLE_STATUS_CODES_def split: transport_outcome.splits)

lemma terminal_failure_handled:
  "terminal_failure outcome \<Longrightarrow> \<exists>err. handleResponse outcome = Inl err \<and> \<not> isRetryable err"
  by (auto simp: terminal_failure_def handleResponse_def handleHttpError_def Let_def
      RETRYABLE_STATUS_CODES_def split: transport_outcome.splits if_splits option.splits list.splits)

lemma chat_success:
  "\<not> cancelled s \<Longrightarrow> reply e (requests s) = Some text \<Longrightarrow>
   chat e role s =
     (Inr text, s\<lparr>requests := Suc (requests s), cancelled := cancelDuring e (requests s),
                  callCount := Suc (callCount s)\<rparr>)"
  unfolding chat_def
  by (rule chat_loop_success) (auto simp: MAX_RETRIES_def reply_def split: sum.splits)

lemma chat_cancelled: "cancelled s \<Longrightarrow> chat e role s = (Inl (Error ''Cancelled''), s)"
  unfolding chat_def by (rule chat_loop_cancelled) (auto simp: MAX_RETRIES_def)

section \<open>C4: the retry ceiling\<close>

text \<open>
  C4. With \<open>MAX_RETRIES = 3\<close>: when the next three requests all meet a retryable failure
  (and the user does not cancel meanwhile), \<open>chat\<close> issues exactly three requests and
  fails with the error of the third, the last one observed. When the next request meets
  a terminal failure, \<open>chat\<close> issues exactly that one request and fails with its error
  at once.
\<close>

theorem chat_retry_ceiling:
  "(\<not> cancelled s
      \<and> (\<forall>j<MAX_RETRIES. retryable_failure (transport e (requests s + j))
                          \<and> \<not> cancelDuring e (requests s + j))
      \<longrightarrow> (\<exists>err. handleResponse (transport e (requests s + 2)) = Inl err
                \<and> chat e role s = (Inl err, s\<lparr>requests := requests s + 3\<rparr>)))
   \<and> (\<not> cancelled s \<and> terminal_failure (transport e (requests s))
      \<longrightarrow> (\<exists>err. handleResponse (transport e (requests s)) = Inl err
                \<and> chat e role s =
                    (Inl err, s\<lparr>requests := requests s + 1,
                                cancelled := cancelDuring e (requests s)\<rparr>)))"
proof (intro conjI impI)
  assume a: "\<not> cancelled s
      \<and> (\<forall>j<MAX_RETRIES. retryable_failure (transport e (requests s + j))
                          \<and> \<not> cancelDuring e (requests s + j))"
  then have nc: "\<not> cancelled s" by simp
  from a have each: "\<And>j. j < 3 \<Longrightarrow>
      retryable_failure (transport e (requests s + j)) \<and> \<not> cancelDuring e (requests s + j)"
    by (simp add: MAX_RETRIES_def)
  from each[of 0] each[of 1] each[of 2]
  have f: "retryable_failure (transport e (requests s))"
       "retryable_failure (transport e (Suc (requests s)))"
       "retryable_failure (transport e (Suc (Suc (requests s))))"
    and c: "\<not> cancelDuring e (requests s)" "\<not> cancelDuring e (Suc (requests s))"
      "\<not> cancelDuring e (Suc (Suc (requests s)))"
    by simp_all
  from f obtain e0 e1 e2 where
    r0: "handleResponse (transport e (requests s)) = Inl e0" "isRetryable e0" and
    r1: "handleResponse (transport e (Suc (requests s))) = Inl e1" "isRetryable e1" and
    r2: "handleResponse (transport e (Suc (Suc (requests s)))) = Inl e2" "isRetryable e2"
    using retryable_failure_handled by meson
  let ?s1 = "s\<lparr>requests := Suc (requests s), cancelled := cancelDuring e (requests s)\<rparr>"
  let ?s2 = "?s1\<lparr>requests := Suc (requests ?s1), cancelled := cancelDuring e (requests ?s1)\<rparr>"
  let ?s3 = "?s2\<lparr>requests := Suc (requests ?s2), cancelled := cancelDuring e (requests ?s2)\<rparr>"
  have "chat e role s = chat_loop e 1 (Some e0) ?s1"
    unfolding chat_def using chat_loop_retry[of 0 s e e0 None] nc r0
    by (simp add: MAX_RETRIES_def)
  also have "\<dots> = chat_loop e 2 (Some e1) ?s2"
    using chat_loop_retry[of 1 ?s1 e e1 "Some e0"] c r1
    by (simp add: MAX_RETRIES_def numeral_2_eq_2)
  also have "\<dots> = chat_loop e 3 (Some e2) ?s3"
    using chat_loop_retry[of 2 ?s2 e e2 "Some e1"] c r2
    by (simp add: MAX_RETRIES_def numeral_3_eq_3 numeral_2_eq_2)
  also have "\<dots> = (Inl e2, ?s3)"
    by (rule chat_loop_exhausted) (simp add: MAX_RETRIES_def)
  also have "?s3 = s\<lparr>requests := requests s + 3\<rparr>"
    using c nc by simp
  finally have "chat e role s = (Inl e2, s\<lparr>requests := requests s + 3\<rparr>)" .
  moreover have "handleResponse (transport e (requests s + 2)) = Inl e2"
    using r2 by simp
  ultimately show "\<exists>err. handleResponse (transport e (requests s + 2)) = Inl err
                \<and> chat e role s = (Inl err, s\<lparr>requests := requests s + 3\<rparr>)"
    by blast
next
  assume a: "\<not> cancelled s \<and> terminal_failure (transport e (requests s))"
  then obtain err where h: "handleResponse (transport e (requests s)) = Inl err" "\<not> isRetryable err"
    using terminal_failure_handled by blast
  have "chat e role s = (Inl err, s\<lparr>requests := Suc (requests s), cancelled := cancelDuring e (requests s)\<rparr>)"
    unfolding chat_def using a h by (intro chat_loop_terminal) (auto simp: MAX_RETRIES_def)
  with h show "\<exists>err. handleResponse (transport e (requests s)) = Inl err
                \<and> chat e role s =
                    (Inl err, s\<lparr>requests := requests s + 1,
                                cancelled := cancelDuring e (requests s)\<rparr>)"
    by simp
qed

theorem chat_retry_ceiling_witness:
  "\<not> cancelled fresh_client
   \<and> list_all (\<lambda>j. retryable_failure (transport (scripted [] (status_response 503)) (requests fresh_client + j))
                   \<and> \<not> cancelDuring (scripted [] (status_response 503)) (requests fresh_client + j))
        [0..<MAX_RETRIES]
   \<and> chat (scripted [] (status_response 503)) drafter fresh_client =
       (Inl (OpenRouterError ''Service temporarily unavailable. Retrying...'' 503 True),
        fresh_client\<lparr>requests := 3\<rparr>)
   \<and> terminal_failure (transport (scripted [] (status_response 401)) (requests fresh_client))
   \<and> chat (scripted [] (status_response 401)) critic fresh_client =
       (Inl (OpenRouterError ''Invalid API key. Please check your OpenRouter API key in settings.'' 401 False),
        fresh_client\<lparr>requests := 1\<rparr>)"
proof -
  let ?r = "scripted [] (status_response 503)" and ?t = "scripted [] (status_response 401)"
  have nc: "\<not> cancelled fresh_client" by (simp add: fresh_client_def)
  have a: "\<forall>j<MAX_RETRIES. retryable_failure (transport ?r (requests fresh_client + j))
                          \<and> \<not> cancelDuring ?r (requests fresh_client + j)"
    by (simp add: scripted_def status_response_def retryable_failure_def)
  have b: "terminal_failure (transport ?t (requests fresh_client))"
    by (simp add: scripted_def status_response_def terminal_failure_def)
  have h503: "handleResponse (transport ?r (requests fresh_client + 2)) =
      Inl (OpenRouterError ''Service temporarily unavailable. Retrying...'' 503 True)"
    by (simp add: scripted_def status_response_def handleResponse_def handleHttpError_def
        errorMessages_def RETRYABLE_STATUS_CODES_def)
  have h401: "handleResponse (transport ?t (requests fresh_client)) =
      Inl (OpenRouterError ''Invalid API key. Please check your OpenRouter API key in settings.'' 401 False)"
    by (simp add: scripted_def status_response_def handleResponse_def handleHttpError_def
        errorMessages_def RETRYABLE_STATUS_CODES_def)
  from chat_retry_ceiling[of fresh_client ?r drafter] nc a h503
  have 1: "chat ?r drafter fresh_client =
       (Inl (OpenRouterError ''Service temporarily unavailable. Retrying...'' 503 True),
        fresh_client\<lparr>requests := requests fresh_client + 3\<rparr>)"
    by auto
  from chat_retry_ceiling[of fresh_client ?t critic] nc b h401
  have 2: "chat ?t critic fresh_client =
       (Inl (OpenRouterError ''Invalid API key. Please check your OpenRouter API key in settings.'' 401 False),
        fresh_client\<lparr>requests := requests fresh_client + 1,
                      cancelled := cancelDuring ?t (requests fresh_client)\<rparr>)"
    by auto
  have 3: "fresh_client\<lparr>requests := requests fresh_client + 1,
                      cancelled := cancelDuring ?t (requests fresh_client)\<rparr> = fresh_client\<lparr>requests := 1\<rparr>"
    by (simp add: fresh_client_def scripted_def)
  have 4: "fresh_client\<lparr>requests := requests fresh_client + 3\<rparr> = fresh_client\<lparr>requests := 3\<rparr>"
    by (simp add: fresh_client_def)
  from nc a b 1 2 3 4 show ?thesis by (simp add: list_all_iff)
qed

section \<open>Accounting of the call counter\<close>

lemma successful_requests_same: "successful_requests e a a = 0"
  by (simp add: successful_requests_def)

lemma successful_requests_step:
  "successful_requests e a (Suc a) = (if reply e a = None then 0 else 1)"
  by (simp add: successful_requests_def)

lemma successful_requests_split:
  assumes "a \<le> b" "b \<le> c"
  shows "successful_requests e a c = successful_requests e a b + successful_requests e b c"
proof -
  from assms have "[a..<c] = [a..<b] @ [b..<c]"
    by (metis le_Suc_ex upt_add_eq_append)
  then show ?thesis by (simp add: successful_requests_def)
qed

lemma accounted_refl: "accounted e s s"
  by (simp add: accounted_def successful_requests_same)

lemma accounted_counter:
  "accounted e s (s'\<lparr>cancelled := b\<rparr>) = accounted e s s'"
  "accounted e (s\<lparr>cancelled := b\<rparr>) s' = accounted e s s'"
  by (simp_all add: accounted_def owed_def)

lemma accounted_trans: "accounted e s s1 \<Longrightarrow> accounted e s1 s2 \<Longrightarrow> accounted e s s2"
  using successful_requests_split[of "requests s" "requests s1" "requests s2" e]
  by (auto simp: accounted_def)

lemma makeRequest_accounted:
  assumes "makeRequest e s = (r, s1)"
  shows "(case r of Inl err \<Rightarrow> accounted e s s1
          | Inr text \<Rightarrow> accounted e s (s1\<lparr>callCount := Suc (callCount s1)\<rparr>))"
  using assms
  by (auto simp: makeRequest_def accounted_def owed_def successful_requests_step reply_def
      split: sum.splits)

lemma chat_loop_accounted:
  "chat_loop e attempt lastError s = (r, s') \<Longrightarrow> accounted e s s'"
proof (induction e attempt lastError s arbitrary: r s' rule: chat_loop.induct)
  case (1 e attempt lastError s)
  show ?case
  proof (cases "attempt < MAX_RETRIES \<and> \<not> cancelled s")
    case False
    with "1.prems" have "s' = s"
      by (subst (asm) chat_loop.simps) (auto split: if_splits)
    then show ?thesis by (simp add: accounted_refl)
  next
    case True
    obtain q s1 where m: "makeRequest e s = (q, s1)" by (cases "makeRequest e s")
    show ?thesis
    proof (cases q)
      case (Inr answer)
      with True m "1.prems" have "s' = s1\<lparr>callCount := Suc (callCount s1)\<rparr>"
        by (subst (asm) chat_loop.simps) auto
      with makeRequest_accounted[OF m] Inr show ?thesis by simp
    next
      case (Inl err)
      with makeRequest_accounted[OF m] have a1: "accounted e s s1" by simp
      show ?thesis
      proof (cases "isRetryable err")
        case False
        with True m Inl "1.prems" have "s' = s1"
          by (subst (asm) chat_loop.simps) auto
        with a1 show ?thesis by simp
      next
        case r: True
        with True m Inl "1.prems" have "chat_loop e (Suc attempt) (Some err) s1 = (r, s')"
          by (subst (asm) chat_loop.simps) auto
        from "1.IH"[OF _ _ m[symmetric] _ r this] True Inl
        have "accounted e s1 s'" by simp
        with a1 show ?thesis by (rule accounted_trans)
      qed
    qed
  qed
qed

lemma chat_accounted: "chat e role s = (r, s') \<Longrightarrow> accounted e s s'"
  unfolding chat_def by (rule chat_loop_accounted)


text \<open>A \<open>chat\<close> call that succeeds is exactly one successful request; one that fails is none.\<close>

lemma chat_loop_counts:
  "chat_loop e attempt lastError s = (r, s') \<Longrightarrow>
   callCount s' = callCount s + (case r of Inl err \<Rightarrow> 0 | Inr answer \<Rightarrow> 1)"
proof (induction e attempt lastError s arbitrary: r s' rule: chat_loop.induct)
  case (1 e attempt lastError s)
  show ?case
  proof (cases "attempt < MAX_RETRIES \<and> \<not> cancelled s")
    case False
    with "1.prems" show ?thesis
      by (subst (asm) chat_loop.simps) (auto split: if_splits option.splits)
  next
    case True
    obtain q s1 where m: "makeRequest e s = (q, s1)" by (cases "makeRequest e s")
    then have same: "callCount s1 = callCount s" by (auto simp: makeRequest_def)
    show ?thesis
    proof (cases q)
      case (Inr answer)
      with True m "1.prems" same show ?thesis
        by (subst (asm) chat_loop.simps) auto
    next
      case (Inl err)
      show ?thesis
      proof (cases "isRetryable err")
        case False
        with True m Inl "1.prems" same show ?thesis
          by (subst (asm) chat_loop.simps) auto
      next
        case r: True
        with True m Inl "1.prems" have "chat_loop e (Suc attempt) (Some err) s1 = (r, s')"
          by (subst (asm) chat_loop.simps) auto
        from "1.IH"[OF _ _ m[symmetric] _ r this] True Inl same
        show ?thesis by simp
      qed
    qed
  qed
qed

lemma chat_loop_background:
  "chat_loop e attempt lastError s = (r, s') \<Longrightarrow> background s' = background s"
proof (induction e attempt lastError s arbitrary: r s' rule: chat_loop.induct)
  case (1 e attempt lastError s)
  show ?case
  proof (cases "attempt < MAX_RETRIES \<and> \<not> cancelled s")
    case False
    with "1.prems" show ?thesis
      by (subst (asm) chat_loop.simps) (auto split: if_splits option.splits)
  next
    case True
    obtain q s1 where m: "makeRequest e s = (q, s1)" by (cases "makeRequest e s")
    then have same: "background s1 = background s" by (auto simp: makeRequest_def)
    show ?thesis
    proof (cases q)
      case (Inr answer)
      with True m "1.prems" same show ?thesis
        by (subst (asm) chat_loop.simps) auto
    next
      case (Inl err)
      show ?thesis
      proof (cases "isRetryable err")
        case False
        with True m Inl "1.prems" same show ?thesis
          by (subst (asm) chat_loop.simps) auto
      next
        case r: True
        with True m Inl "1.prems" have "chat_loop e (Suc attempt) (Some err) s1 = (r, s')"
          by (subst (asm) chat_loop.simps) auto
        from "1.IH"[OF _ _ m[symmetric] _ r this] True Inl same
        show ?thesis by simp
      qed
    qed
  qed
qed

lemma chat_counts_one_success:
  assumes "chat e role s = (r, s')"
  shows "successful_requests e (requests s) (requests s')
           = (case r of Inl err \<Rightarrow> 0 | Inr answer \<Rightarrow> 1)"
  using chat_accounted[OF assms] chat_loop_counts[of e 0 None s r s'] assms
    chat_loop_background[of e 0 None s r s']
  by (simp add: accounted_def owed_def chat_def)



lemma chat_resume_accounted:
  assumes "chat_resume e k attempt s = (task, s')"
  shows "requests s \<le> requests s' \<and> background s' = background s
       \<and> callCount s' + owed_by e task
           = callCount s + owed_by e (Waiting k attempt)
             + successful_requests e (requests s) (requests s')"
  using assms
  by (auto simp: chat_resume_def Let_def owed_by_def reply_def successful_requests_step
      successful_requests_same split: sum.splits if_splits)









text \<open>
  The detached chats, run on to their end, pay the call counter what they owed.
\<close>

lemma run_task_accounted:
  "run_task e task s = (r, s') \<Longrightarrow>
   requests s \<le> requests s' \<and> background s' = background s
   \<and> callCount s' = callCount s + owed_by e task
        + successful_requests e (requests s) (requests s')"
proof (induction "task_weight task" arbitrary: task s rule: less_induct)
  case less
  show ?case
  proof (cases task)
    case (Settled x)
    with less.prems show ?thesis
      by (subst (asm) run_task.simps) (auto simp: owed_by_def successful_requests_same)
  next
    case (Waiting k attempt)
    obtain task1 s1 where c: "chat_resume e k attempt s = (task1, s1)"
      by (cases "chat_resume e k attempt s")
    from c have lt: "task_weight task1 < task_weight task"
      unfolding Waiting
      by (auto simp: chat_resume_def Let_def task_weight_def split: sum.splits if_splits)
    from less.prems Waiting c have "run_task e task1 s1 = (r, s')"
      by (subst (asm) run_task.simps) simp
    from less.hyps[OF lt this] chat_resume_accounted[OF c] Waiting
    show ?thesis
      using successful_requests_split[of "requests s" "requests s1" "requests s'" e]
      by simp
  qed
qed

lemma settle_one_accounted:
  "requests s \<le> requests (settle_one e p s)
   \<and> background (settle_one e p s) = background s
   \<and> callCount (settle_one e p s)
       = callCount s + (if reply e (awaited p) = None then 0 else 1)
         + successful_requests e (requests s) (requests (settle_one e p s))"
proof -
  obtain r s' where run:
    "run_task e (Waiting (awaited p) (attempts_made p)) (s\<lparr>cancelled := token_set p\<rparr>) = (r, s')"
    by (cases "run_task e (Waiting (awaited p) (attempts_made p)) (s\<lparr>cancelled := token_set p\<rparr>)")
  from run_task_accounted[OF run] run show ?thesis
    by (simp add: settle_one_def owed_by_def)
qed

lemma fold_settle_accounted:
  "requests s \<le> requests (fold (settle_one e) ps s)
   \<and> background (fold (settle_one e) ps s) = background s
   \<and> callCount (fold (settle_one e) ps s)
       = callCount s + length (filter (\<lambda>p. reply e (awaited p) \<noteq> None) ps)
         + successful_requests e (requests s) (requests (fold (settle_one e) ps s))"
proof (induction ps arbitrary: s)
  case Nil
  then show ?case by (simp add: successful_requests_same)
next
  case (Cons p ps)
  from settle_one_accounted[of s e p] Cons.IH[of "settle_one e p s"]
  show ?case
    using successful_requests_split[of "requests s" "requests (settle_one e p s)"
        "requests (fold (settle_one e) ps (settle_one e p s))" e]
    by simp
qed

lemma settle_background_accounted:
  "accounted e s (settle_background e s) \<and> background (settle_background e s) = []"
  using fold_settle_accounted[of "s\<lparr>background := []\<rparr>" e "background s"]
  by (simp add: settle_background_def accounted_def owed_def)

section \<open>C10: the call counter accumulates across sessions\<close>




section \<open>C8: cancellation before the first request\<close>

lemma interpretation_run_cancelled:
  "cancelled s \<Longrightarrow> interpretation_run e maxRounds s = (Inl (Error ''Cancelled''), s)"
  by (simp add: interpretation_run_def)

lemma refinement_run_cancelled:
  "cancelled s \<Longrightarrow> refinement_run e maxRounds s = (Inl (Error ''Cancelled''), s)"
  by (simp add: refinement_run_def)

text \<open>
  C8. When the cancellation token is already set as \<open>process\<close> is called, \<open>process\<close>
  returns through its error boundary with the message \<open>Cancelled\<close> and leaves the client
  as it was: no request has been issued and the call counter is unchanged. Each phase
  and \<open>chat\<close> itself refuse a set token the same way, before any request.
\<close>

theorem cancelled_before_start:
  assumes "cancelled s"
  shows "process e mi mr art s =
           (\<lparr>article = art,
             state = initial_state\<lparr>phase := phase_error, error := Some ''Cancelled''\<rparr>,
             atomicNotes = [], totalApiCalls = callCount s\<rparr>, s)
       \<and> interpretation_run e mi s = (Inl (Error ''Cancelled''), s)
       \<and> refinement_run e mr s = (Inl (Error ''Cancelled''), s)
       \<and> chat e role s = (Inl (Error ''Cancelled''), s)"
  using assms
  by (simp add: process_def process_catch_def getCallCount_def interpretation_run_cancelled
      refinement_run_cancelled chat_cancelled initial_state_def)

theorem cancelled_before_start_witness:
  "cancelled (fresh_client\<lparr>cancelled := True\<rparr>)
   \<and> process (scripted [] (ok_response ''text'')) 3 3 () (fresh_client\<lparr>cancelled := True\<rparr>) =
       (\<lparr>article = (),
         state = initial_state\<lparr>phase := phase_error, error := Some ''Cancelled''\<rparr>,
         atomicNotes = [], totalApiCalls = 0\<rparr>,
        \<lparr>requests = 0, callCount = 0, cancelled = True, background = []\<rparr>)
   \<and> chat (scripted [] (ok_response ''text'')) drafter (fresh_client\<lparr>cancelled := True\<rparr>) =
       (Inl (Error ''Cancelled''), \<lparr>requests = 0, callCount = 0, cancelled = True, background = []\<rparr>)"
proof -
  have c: "cancelled (fresh_client\<lparr>cancelled := True\<rparr>)" by simp
  from cancelled_before_start[OF c, of "scripted [] (ok_response ''text'')" 3 3 "()" drafter] c
  show ?thesis by (simp add: fresh_client_def)
qed

section \<open>Exhausting the round budget\<close>

lemma chat_answers:
  assumes "\<not> cancelled s" "\<forall>i. \<not> cancelDuring e i" "reply e (requests s) = Some t"
  shows "chat e role s =
     (Inr t, \<lparr>requests = Suc (requests s), callCount = Suc (callCount s), cancelled = False, background = background s\<rparr>)"
  using chat_success[OF assms(1,3), of role] assms(1,2) by simp

lemma world_not_cancelled:
  "\<not> cancelled s \<Longrightarrow>
   s\<lparr>requests := a, callCount := b\<rparr>
     = \<lparr>requests = a, callCount = b, cancelled = False, background = background s\<rparr>"
  by (cases s) simp

lemma chat_resume_answer:
  "reply e k = Some t \<Longrightarrow>
   chat_resume e k attempt s =
     (Settled (Inr t),
      s\<lparr>cancelled := cancelled s \<or> cancelDuring e k, callCount := Suc (callCount s)\<rparr>)"
  by (auto simp: chat_resume_def reply_def Let_def split: sum.splits)

text \<open>When both initial requests are answered, the order of the answers does not matter.\<close>

lemma promise_all_both_answer:
  assumes "reply e kg = Some g" "reply e kc = Some c"
    and "\<not> cancelDuring e kg" "\<not> cancelDuring e kc"
  shows "promise_all e (Waiting kg ag) (Waiting kc ac) s =
           (Inr (g, c), s\<lparr>callCount := Suc (Suc (callCount s))\<rparr>)"
proof -
  let ?s1 = "s\<lparr>callCount := Suc (callCount s)\<rparr>"
  let ?s2 = "s\<lparr>callCount := Suc (Suc (callCount s))\<rparr>"
  have rg: "chat_resume e kg ag w = (Settled (Inr g), w\<lparr>callCount := Suc (callCount w)\<rparr>)" for w
    using chat_resume_answer[OF assms(1), of ag w] assms(3) by simp
  have rc: "chat_resume e kc ac w = (Settled (Inr c), w\<lparr>callCount := Suc (callCount w)\<rparr>)" for w
    using chat_resume_answer[OF assms(2), of ac w] assms(4) by simp
  have both: "promise_all e (Settled (Inr g)) (Settled (Inr c)) ?s2 = (Inr (g, c), ?s2)"
    by (subst promise_all.simps) simp
  show ?thesis
  proof (cases "answersFirst e kg kc")
    case True
    then have "promise_all e (Waiting kg ag) (Waiting kc ac) s
        = promise_all e (Settled (Inr g)) (Waiting kc ac) ?s1"
      by (subst promise_all.simps) (simp add: rg)
    also have "\<dots> = promise_all e (Settled (Inr g)) (Settled (Inr c)) ?s2"
      by (subst promise_all.simps) (simp add: rc)
    finally show ?thesis by (simp only: both)
  next
    case False
    then have "promise_all e (Waiting kg ag) (Waiting kc ac) s
        = promise_all e (Waiting kg ag) (Settled (Inr c)) ?s1"
      by (subst promise_all.simps) (simp add: rc)
    also have "\<dots> = promise_all e (Settled (Inr g)) (Settled (Inr c)) ?s2"
      by (subst promise_all.simps) (simp add: rg)
    finally show ?thesis by (simp only: both)
  qed
qed

lemma interpretation_run_after_answers:
  assumes "\<not> cancelled s" and "\<forall>i. \<not> cancelDuring e i"
    and "reply e (requests s) = Some g" and "reply e (Suc (requests s)) = Some c"
  shows "interpretation_run e N s =
           alignment_loop e N 1 g c
             \<lparr>requests = Suc (Suc (requests s)), callCount = Suc (Suc (callCount s)),
              cancelled = False, background = background s\<rparr>"
proof -
  let ?s2 = "s\<lparr>requests := Suc (Suc (requests s))\<rparr>"
  have "promise_all e (Waiting (requests s) 0) (Waiting (Suc (requests s)) 0) ?s2 =
           (Inr (g, c), ?s2\<lparr>callCount := Suc (Suc (callCount ?s2))\<rparr>)"
    using assms by (intro promise_all_both_answer) simp_all
  then have pa: "promise_all e (Waiting (requests s) 0) (Waiting (Suc (requests s)) 0) ?s2 =
           (Inr (g, c), \<lparr>requests = Suc (Suc (requests s)),
              callCount = Suc (Suc (callCount s)),
              cancelled = False, background = background s\<rparr>)"
    by (simp add: world_not_cancelled[OF assms(1)])
  show ?thesis
    using assms(1)
    by (simp add: interpretation_run_def chat_begin_def MAX_RETRIES_def pa)
qed

lemma alignment_loop_exhausts:
  assumes "\<forall>i. \<not> cancelDuring e i"
    and "\<forall>i\<ge>requests s. \<exists>t. reply e i = Some t \<and> \<not> isAligned t"
    and "\<not> cancelled s"
  shows "\<exists>res. alignment_loop e N r g c s =
            (Inr res, \<lparr>requests = requests s + (N - r), callCount = callCount s + (N - r),
                       cancelled = False, background = background s\<rparr>)
          \<and> \<not> aligned res \<and> rounds res = N
          \<and> alignedInterpretation res =
              combineInterpretations (gptInterpretation res) (claudeInterpretation res)"
  using assms(2,3)
proof (induction "N - r" arbitrary: r g c s rule: less_induct)
  case less
  show ?case
  proof (cases "r < N")
    case False
    with less.prems show ?thesis
      by (subst alignment_loop.simps) (simp add: synthesized_def)
  next
    case True
    from less.prems obtain t1 where t1: "reply e (requests s) = Some t1" "\<not> isAligned t1"
      by (meson le_refl)
    let ?s1 = "\<lparr>requests = Suc (requests s), callCount = Suc (callCount s), cancelled = False, background = background s\<rparr>"
    have c1: "chat e critic s = (Inr t1, ?s1)"
      using chat_answers[OF less.prems(2) assms(1) t1(1)] .
    show ?thesis
    proof (cases "N \<le> r + 1")
      case last: True
      with True have "N - r = 1" by simp
      with True last c1 t1 less.prems show ?thesis
        by (subst alignment_loop.simps) (simp add: synthesized_def)
    next
      case more: False
      from less.prems obtain t2 where t2: "reply e (Suc (requests s)) = Some t2" "\<not> isAligned t2"
        by (meson le_Suc_eq le_refl)
      let ?s2 = "\<lparr>requests = Suc (Suc (requests s)), callCount = Suc (Suc (callCount s)),
                  cancelled = False, background = background s\<rparr>"
      have c2: "chat e drafter ?s1 = (Inr t2, ?s2)"
        using chat_answers[of ?s1 e t2 drafter] assms(1) t2(1) by simp
      have step: "alignment_loop e N r g c s = alignment_loop e N (r + 2) t2 t1 ?s2"
        using True more c1 c2 t1 t2 less.prems
        by (subst alignment_loop.simps) simp
      have later: "\<forall>i\<ge>requests ?s2. \<exists>t. reply e i = Some t \<and> \<not> isAligned t"
        using less.prems(1) by simp
      have lt: "N - (r + 2) < N - r" using True by simp
      have "\<exists>res. alignment_loop e N (r + 2) t2 t1 ?s2 =
            (Inr res, \<lparr>requests = requests ?s2 + (N - (r + 2)),
                       callCount = callCount ?s2 + (N - (r + 2)), cancelled = False, background = background ?s2\<rparr>)
          \<and> \<not> aligned res \<and> rounds res = N
          \<and> alignedInterpretation res =
              combineInterpretations (gptInterpretation res) (claudeInterpretation res)"
        by (rule less.hyps[OF lt later]) simp
      then obtain res where "alignment_loop e N (r + 2) t2 t1 ?s2 =
            (Inr res, \<lparr>requests = requests ?s2 + (N - (r + 2)),
                       callCount = callCount ?s2 + (N - (r + 2)), cancelled = False, background = background ?s2\<rparr>)"
          "\<not> aligned res" "rounds res = N"
          "alignedInterpretation res =
              combineInterpretations (gptInterpretation res) (claudeInterpretation res)"
        by blast
      moreover have "requests ?s2 + (N - (r + 2)) = requests s + (N - r)"
        "callCount ?s2 + (N - (r + 2)) = callCount s + (N - r)"
        using more by simp_all
      ultimately show ?thesis using step by auto
    qed
  qed
qed

lemma interpretation_run_exhausts:
  assumes "\<forall>i. \<not> cancelDuring e i"
    and "\<forall>i\<ge>requests s. \<exists>t. reply e i = Some t \<and> \<not> isAligned t"
    and "\<not> cancelled s" and "1 \<le> N"
  shows "\<exists>res. interpretation_run e N s =
            (Inr res, \<lparr>requests = requests s + N + 1, callCount = callCount s + N + 1,
                       cancelled = False, background = background s\<rparr>)
          \<and> \<not> aligned res \<and> rounds res = N
          \<and> alignedInterpretation res =
              combineInterpretations (gptInterpretation res) (claudeInterpretation res)"
proof -
  from assms(2) obtain g where g: "reply e (requests s) = Some g" by (meson le_refl)
  from assms(2) obtain c where c: "reply e (Suc (requests s)) = Some c"
    by (meson le_Suc_eq le_refl)
  let ?s1 = "\<lparr>requests = Suc (requests s), callCount = Suc (callCount s), cancelled = False, background = background s\<rparr>"
  let ?s2 = "\<lparr>requests = Suc (Suc (requests s)), callCount = Suc (Suc (callCount s)),
                  cancelled = False, background = background s\<rparr>"
  have run: "interpretation_run e N s = alignment_loop e N 1 g c ?s2"
    using interpretation_run_after_answers[OF assms(3,1) g c] .
  have "\<forall>i\<ge>requests ?s2. \<exists>t. reply e i = Some t \<and> \<not> isAligned t"
    using assms(2) by simp
  then have "\<exists>res. alignment_loop e N 1 g c ?s2 =
            (Inr res, \<lparr>requests = requests ?s2 + (N - 1), callCount = callCount ?s2 + (N - 1),
                       cancelled = False, background = background ?s2\<rparr>)
          \<and> \<not> aligned res \<and> rounds res = N
          \<and> alignedInterpretation res =
              combineInterpretations (gptInterpretation res) (claudeInterpretation res)"
    by (rule alignment_loop_exhausts[OF assms(1)]) simp
  then obtain res where "alignment_loop e N 1 g c ?s2 =
            (Inr res, \<lparr>requests = requests ?s2 + (N - 1), callCount = callCount ?s2 + (N - 1),
                       cancelled = False, background = background ?s2\<rparr>)"
          "\<not> aligned res" "rounds res = N"
          "alignedInterpretation res =
              combineInterpretations (gptInterpretation res) (claudeInterpretation res)"
    by blast
  moreover have "requests ?s2 + (N - 1) = requests s + N + 1"
     "callCount ?s2 + (N - 1) = callCount s + N + 1"
    using assms(4) by simp_all
  ultimately show ?thesis using run by auto
qed


lemma refinement_loop_exhausts:
  assumes "\<forall>i. \<not> cancelDuring e i"
    and "\<forall>i\<ge>requests s. \<exists>t. reply e i = Some t \<and> parseCritiqueStatus t = NeedsWork"
    and "\<not> cancelled s" and "r < N"
  shows "\<exists>res mid. refinement_loop e N r d ns log s =
            (Inr res, \<lparr>requests = requests s + (2 * (N - r) - 1),
                       callCount = callCount s + (2 * (N - r) - 1), cancelled = False, background = background s\<rparr>)
          \<and> \<not> approved res \<and> rounds_used res = N
          \<and> notes res =
               (if r + 1 = N then ns else parse (the (reply e (requests s + (2 * (N - r) - 3)))))
          \<and> transcript res =
               log @ mid @ [transcript_entry critic critique
                              (the (reply e (requests s + (2 * (N - r) - 2)))) N]"
  using assms(2,3,4)
proof (induction "N - r" arbitrary: r d ns log s rule: less_induct)
  case less
  from less.prems obtain t1 where t1: "reply e (requests s) = Some t1"
      "parseCritiqueStatus t1 = NeedsWork"
    by (meson le_refl)
  let ?s1 = "\<lparr>requests = Suc (requests s), callCount = Suc (callCount s), cancelled = False, background = background s\<rparr>"
  let ?log1 = "log @ [transcript_entry critic critique t1 (r + 1)]"
  have c1: "chat e critic s = (Inr t1, ?s1)"
    using chat_answers[OF less.prems(2) assms(1) t1(1)] .
  show ?case
  proof (cases "N \<le> r + 1")
    case True
    with less.prems(3) have N: "N = r + 1" by simp
    have "refinement_loop e N r d ns log s =
        (Inr \<lparr>notes = ns, rounds_used = N, approved = False, transcript = ?log1\<rparr>, ?s1)"
      using N c1 t1 less.prems by (subst refinement_loop.simps) (simp add: Let_def)
    moreover have "?log1 = log @ [] @ [transcript_entry critic critique
                              (the (reply e (requests s + (2 * (N - r) - 2)))) N]"
      using N t1 by simp
    ultimately show ?thesis using N
      by (intro exI[of _ "\<lparr>notes = ns, rounds_used = N, approved = False, transcript = ?log1\<rparr>"]
            exI[of _ "[]"]) simp
  next
    case False
    from less.prems obtain t2 where t2: "reply e (Suc (requests s)) = Some t2"
      by (meson le_Suc_eq le_refl)
    let ?s2 = "\<lparr>requests = Suc (Suc (requests s)), callCount = Suc (Suc (callCount s)),
                cancelled = False, background = background s\<rparr>"
    let ?log2 = "?log1 @ [transcript_entry drafter revision t2 (r + 2)]"
    have c2: "chat e drafter ?s1 = (Inr t2, ?s2)"
      using chat_answers[of ?s1 e t2 drafter] assms(1) t2(1) by simp
    have step: "refinement_loop e N r d ns log s =
        refinement_loop e N (r + 1) t2 (parse t2) ?log2 ?s2"
      using False c1 c2 t1 less.prems
      by (subst refinement_loop.simps) (simp add: Let_def)
    have later: "\<forall>i\<ge>requests ?s2. \<exists>t. reply e i = Some t \<and> parseCritiqueStatus t = NeedsWork"
      using less.prems(1) by simp
    have lt: "N - (r + 1) < N - r" using less.prems(3) by simp
    have "\<exists>res mid. refinement_loop e N (r + 1) t2 (parse t2) ?log2 ?s2 =
            (Inr res, \<lparr>requests = requests ?s2 + (2 * (N - (r + 1)) - 1),
                       callCount = callCount ?s2 + (2 * (N - (r + 1)) - 1), cancelled = False, background = background ?s2\<rparr>)
          \<and> \<not> approved res \<and> rounds_used res = N
          \<and> notes res =
               (if r + 1 + 1 = N then parse t2
                else parse (the (reply e (requests ?s2 + (2 * (N - (r + 1)) - 3)))))
          \<and> transcript res =
               ?log2 @ mid @ [transcript_entry critic critique
                              (the (reply e (requests ?s2 + (2 * (N - (r + 1)) - 2)))) N]"
      by (rule less.hyps[OF lt later]) (use False in simp_all)
    then obtain res mid where ih:
        "refinement_loop e N (r + 1) t2 (parse t2) ?log2 ?s2 =
            (Inr res, \<lparr>requests = requests ?s2 + (2 * (N - (r + 1)) - 1),
                       callCount = callCount ?s2 + (2 * (N - (r + 1)) - 1), cancelled = False, background = background ?s2\<rparr>)"
        "\<not> approved res" "rounds_used res = N"
        "notes res =
               (if r + 1 + 1 = N then parse t2
                else parse (the (reply e (requests ?s2 + (2 * (N - (r + 1)) - 3)))))"
        "transcript res =
               ?log2 @ mid @ [transcript_entry critic critique
                              (the (reply e (requests ?s2 + (2 * (N - (r + 1)) - 2)))) N]"
      by blast
    have a1: "requests ?s2 + (2 * (N - (r + 1)) - 1) = requests s + (2 * (N - r) - 1)"
       "callCount ?s2 + (2 * (N - (r + 1)) - 1) = callCount s + (2 * (N - r) - 1)"
       "requests ?s2 + (2 * (N - (r + 1)) - 2) = requests s + (2 * (N - r) - 2)"
      using False by simp_all
    have a2: "notes res = parse (the (reply e (requests s + (2 * (N - r) - 3))))"
    proof (cases "r + 1 + 1 = N")
      case True
      then have "requests s + (2 * (N - r) - 3) = Suc (requests s)" by auto
      with ih(4) True t2 show ?thesis by simp
    next
      case f: False
      with False have idx: "requests ?s2 + (2 * (N - (r + 1)) - 3) = requests s + (2 * (N - r) - 3)"
        by simp
      from ih(4) f
      have "notes res = parse (the (reply e (requests ?s2 + (2 * (N - (r + 1)) - 3))))"
        by (simp only: if_False)
      then show ?thesis by (simp only: idx)
    qed
    have a3: "transcript res = log @
          ([transcript_entry critic critique t1 (r + 1),
            transcript_entry drafter revision t2 (r + 2)] @ mid)
          @ [transcript_entry critic critique
                              (the (reply e (requests s + (2 * (N - r) - 2)))) N]"
      by (simp only: ih(5) a1(3) append_assoc append_Cons append_Nil)
    have final: "refinement_loop e N r d ns log s =
        (Inr res, \<lparr>requests = requests s + (2 * (N - r) - 1),
                   callCount = callCount s + (2 * (N - r) - 1), cancelled = False, background = background s\<rparr>)"
    proof -
      have bg: "background ?s2 = background s" by simp
      show ?thesis by (simp only: step ih(1) a1(1,2) bg)
    qed
    have ne: "r + 1 \<noteq> N" using False by simp
    have n': "notes res =
        (if r + 1 = N then ns else parse (the (reply e (requests s + (2 * (N - r) - 3)))))"
      using a2 ne by (simp only: if_False)
    from final ih(2,3) n' a3 show ?thesis by blast
  qed
qed

lemma refinement_run_exhausts:
  assumes "\<forall>i. \<not> cancelDuring e i"
    and "\<forall>i\<ge>requests s. \<exists>t. reply e i = Some t \<and> parseCritiqueStatus t = NeedsWork"
    and "\<not> cancelled s" and "1 \<le> N"
  shows "\<exists>res. refinement_run e N s =
            (Inr res, \<lparr>requests = requests s + 2 * N, callCount = callCount s + 2 * N,
                       cancelled = False, background = background s\<rparr>)
          \<and> \<not> approved res \<and> rounds_used res = N
          \<and> notes res = parse (the (reply e (requests s + 2 * (N - 1))))
          \<and> last (transcript res) =
               transcript_entry critic critique (the (reply e (requests s + 2 * N - 1))) N"
proof -
  from assms(2) obtain d where d: "reply e (requests s) = Some d" by (meson le_refl)
  let ?s1 = "\<lparr>requests = Suc (requests s), callCount = Suc (callCount s), cancelled = False, background = background s\<rparr>"
  let ?log = "[transcript_entry drafter draft d 1]"
  have c1: "chat e drafter s = (Inr d, ?s1)"
    using chat_answers[OF assms(3,1) d] .
  have run: "refinement_run e N s = refinement_loop e N 0 d (parse d) ?log ?s1"
    using assms(3) c1 by (simp add: refinement_run_def)
  have later: "\<forall>i\<ge>requests ?s1. \<exists>t. reply e i = Some t \<and> parseCritiqueStatus t = NeedsWork"
    using assms(2) by simp
  have "\<exists>res mid. refinement_loop e N 0 d (parse d) ?log ?s1 =
            (Inr res, \<lparr>requests = requests ?s1 + (2 * (N - 0) - 1),
                       callCount = callCount ?s1 + (2 * (N - 0) - 1), cancelled = False, background = background ?s1\<rparr>)
          \<and> \<not> approved res \<and> rounds_used res = N
          \<and> notes res =
               (if 0 + 1 = N then parse d
                else parse (the (reply e (requests ?s1 + (2 * (N - 0) - 3)))))
          \<and> transcript res =
               ?log @ mid @ [transcript_entry critic critique
                              (the (reply e (requests ?s1 + (2 * (N - 0) - 2)))) N]"
    by (rule refinement_loop_exhausts[OF assms(1) later]) (use assms(4) in simp_all)
  then obtain res mid where ih:
      "refinement_loop e N 0 d (parse d) ?log ?s1 =
            (Inr res, \<lparr>requests = requests ?s1 + (2 * (N - 0) - 1),
                       callCount = callCount ?s1 + (2 * (N - 0) - 1), cancelled = False, background = background ?s1\<rparr>)"
      "\<not> approved res" "rounds_used res = N"
      "notes res =
               (if 0 + 1 = N then parse d
                else parse (the (reply e (requests ?s1 + (2 * (N - 0) - 3)))))"
      "transcript res =
               ?log @ mid @ [transcript_entry critic critique
                              (the (reply e (requests ?s1 + (2 * (N - 0) - 2)))) N]"
    by blast
  have a1: "requests ?s1 + (2 * (N - 0) - 1) = requests s + 2 * N"
      "callCount ?s1 + (2 * (N - 0) - 1) = callCount s + 2 * N"
      "requests ?s1 + (2 * (N - 0) - 2) = requests s + 2 * N - 1"
    using assms(4) by simp_all
  have a2: "notes res = parse (the (reply e (requests s + 2 * (N - 1))))"
  proof (cases "0 + 1 = N")
    case True
    with ih(4) d show ?thesis by auto
  next
    case False
    with assms(4) have idx: "requests ?s1 + (2 * (N - 0) - 3) = requests s + 2 * (N - 1)"
      by auto
    from ih(4) False
    have "notes res = parse (the (reply e (requests ?s1 + (2 * (N - 0) - 3))))"
      by (simp only: if_False)
    then show ?thesis by (simp only: idx)
  qed
  have a3: "last (transcript res) =
      transcript_entry critic critique (the (reply e (requests s + 2 * N - 1))) N"
  proof -
    have l: "\<And>x. last (?log @ mid @ [x]) = x" by simp
    show ?thesis by (simp only: ih(5) l a1(3))
  qed
  have final: "refinement_run e N s =
      (Inr res, \<lparr>requests = requests s + 2 * N, callCount = callCount s + 2 * N,
                 cancelled = False, background = background s\<rparr>)"
  proof -
    have bg: "background ?s1 = background s" by simp
    show ?thesis by (simp only: run ih(1) a1(1,2) bg)
  qed
  from final ih(2,3) a2 a3 show ?thesis by blast
qed

section \<open>C3: the round budgets\<close>

text \<open>
  C3. Let the round limit be \<open>N \<ge> 1\<close>, let every request succeed and the user never
  cancel. If no response is classified as aligned, the interpretation phase returns after
  \<open>N + 1\<close> requests (the two initial ones and one per further round) with
  \<open>aligned = false\<close>, \<open>rounds = N\<close> and the non-empty synthesis of the two current
  interpretations. If no response is classified as approved or marginal, the refinement
  loop returns after \<open>2 N\<close> requests with \<open>approved = false\<close>, \<open>rounds = N\<close> and the notes
  parsed from the last draft received; the last request, and the last transcript entry,
  is the critique of round \<open>N\<close>: no revision is requested after it.
\<close>

theorem round_budget_termination:
  assumes "1 \<le> N" and "\<not> cancelled s" and "\<forall>i. \<not> cancelDuring e i"
  shows "((\<forall>i\<ge>requests s. \<exists>t. reply e i = Some t \<and> \<not> isAligned t) \<longrightarrow>
          (\<exists>res. interpretation_run e N s =
              (Inr res, \<lparr>requests = requests s + N + 1, callCount = callCount s + N + 1,
                         cancelled = False, background = background s\<rparr>)
            \<and> \<not> aligned res \<and> rounds res = N
            \<and> alignedInterpretation res =
                combineInterpretations (gptInterpretation res) (claudeInterpretation res)
            \<and> alignedInterpretation res \<noteq> []))
       \<and> ((\<forall>i\<ge>requests s. \<exists>t. reply e i = Some t \<and> parseCritiqueStatus t = NeedsWork) \<longrightarrow>
          (\<exists>res. refinement_run e N s =
              (Inr res, \<lparr>requests = requests s + 2 * N, callCount = callCount s + 2 * N,
                         cancelled = False, background = background s\<rparr>)
            \<and> \<not> approved res \<and> rounds_used res = N
            \<and> notes res = parse (the (reply e (requests s + 2 * (N - 1))))
            \<and> last (transcript res) =
                 transcript_entry critic critique (the (reply e (requests s + 2 * N - 1))) N))"
proof (intro conjI impI)
  assume "\<forall>i\<ge>requests s. \<exists>t. reply e i = Some t \<and> \<not> isAligned t"
  from interpretation_run_exhausts[OF assms(3) this assms(2,1)]
  obtain res where r: "interpretation_run e N s =
              (Inr res, \<lparr>requests = requests s + N + 1, callCount = callCount s + N + 1,
                         cancelled = False, background = background s\<rparr>)"
     "\<not> aligned res" "rounds res = N"
     "alignedInterpretation res =
                combineInterpretations (gptInterpretation res) (claudeInterpretation res)"
    by blast
  from r(4) have "alignedInterpretation res \<noteq> []"
    by (simp add: combineInterpretations_def)
  with r show "\<exists>res. interpretation_run e N s =
              (Inr res, \<lparr>requests = requests s + N + 1, callCount = callCount s + N + 1,
                         cancelled = False, background = background s\<rparr>)
            \<and> \<not> aligned res \<and> rounds res = N
            \<and> alignedInterpretation res =
                combineInterpretations (gptInterpretation res) (claudeInterpretation res)
            \<and> alignedInterpretation res \<noteq> []"
    by blast
next
  assume "\<forall>i\<ge>requests s. \<exists>t. reply e i = Some t \<and> parseCritiqueStatus t = NeedsWork"
  from refinement_run_exhausts[OF assms(3) this assms(2,1)]
  show "\<exists>res. refinement_run e N s =
              (Inr res, \<lparr>requests = requests s + 2 * N, callCount = callCount s + 2 * N,
                         cancelled = False, background = background s\<rparr>)
            \<and> \<not> approved res \<and> rounds_used res = N
            \<and> notes res = parse (the (reply e (requests s + 2 * (N - 1))))
            \<and> last (transcript res) =
                 transcript_entry critic critique (the (reply e (requests s + 2 * N - 1))) N" .
qed

theorem round_budget_termination_witness:
  "(1::nat) \<le> 2 \<and> \<not> cancelled fresh_client
   \<and> (\<forall>i. \<not> cancelDuring (scripted [] (ok_response ''### Heading'')) i)
   \<and> (\<forall>i. reply (scripted [] (ok_response ''### Heading'')) i = Some ''### Heading'')
   \<and> \<not> isAligned ''### Heading'' \<and> parseCritiqueStatus ''### Heading'' = NeedsWork
   \<and> interpretation_run (scripted [] (ok_response ''### Heading'')) 2 fresh_client =
        (Inr \<lparr>aligned = False,
              alignedInterpretation = combineInterpretations ''### Heading'' ''### Heading'',
              gptInterpretation = ''### Heading'', claudeInterpretation = ''### Heading'',
              rounds = 2\<rparr>,
         \<lparr>requests = 3, callCount = 3, cancelled = False, background = []\<rparr>)
   \<and> refinement_run (scripted [] (ok_response ''### Heading'')) 2 fresh_client =
        (Inr \<lparr>notes = [], rounds_used = 2, approved = False,
              transcript =
                [transcript_entry drafter draft ''### Heading'' 1,
                 transcript_entry critic critique ''### Heading'' 1,
                 transcript_entry drafter revision ''### Heading'' 2,
                 transcript_entry critic critique ''### Heading'' 2]\<rparr>,
         \<lparr>requests = 4, callCount = 4, cancelled = False, background = []\<rparr>)"
proof -
  let ?e = "scripted [] (ok_response ''### Heading'')"
  have h1: "(1::nat) \<le> 2" by simp
  have h2: "\<not> cancelled fresh_client" by (simp add: fresh_client_def)
  have h3: "\<forall>i. \<not> cancelDuring ?e i" by (simp add: scripted_def)
  have h4: "\<forall>i. reply ?e i = Some ''### Heading''"
    by (simp add: reply_def scripted_def ok_response_def handleResponse_def)
  have h5: "\<not> isAligned ''### Heading''" by code_simp
  have h6: "parseCritiqueStatus ''### Heading'' = NeedsWork" by code_simp
  have a: "\<forall>i\<ge>requests fresh_client. \<exists>t. reply ?e i = Some t \<and> \<not> isAligned t"
    using h4 h5 by simp
  have b: "\<forall>i\<ge>requests fresh_client. \<exists>t. reply ?e i = Some t \<and> parseCritiqueStatus t = NeedsWork"
    using h4 h6 by simp
  from round_budget_termination[OF h1 h2 h3] a b
  obtain ri rr where
    i: "interpretation_run ?e 2 fresh_client =
          (Inr ri, \<lparr>requests = requests fresh_client + 2 + 1,
                     callCount = callCount fresh_client + 2 + 1, cancelled = False, background = background fresh_client\<rparr>)"
       "\<not> aligned ri" "rounds ri = 2" and
    r: "refinement_run ?e 2 fresh_client =
          (Inr rr, \<lparr>requests = requests fresh_client + 2 * 2,
                     callCount = callCount fresh_client + 2 * 2, cancelled = False, background = background fresh_client\<rparr>)"
       "\<not> approved rr" "rounds_used rr = 2"
    by blast
  have ei: "interpretation_run ?e 2 fresh_client =
        (Inr \<lparr>aligned = False,
              alignedInterpretation = combineInterpretations ''### Heading'' ''### Heading'',
              gptInterpretation = ''### Heading'', claudeInterpretation = ''### Heading'',
              rounds = 2\<rparr>,
         \<lparr>requests = 3, callCount = 3, cancelled = False, background = []\<rparr>)"
    by code_simp
  have er: "refinement_run ?e 2 fresh_client =
        (Inr \<lparr>notes = [], rounds_used = 2, approved = False,
              transcript =
                [transcript_entry drafter draft ''### Heading'' 1,
                 transcript_entry critic critique ''### Heading'' 1,
                 transcript_entry drafter revision ''### Heading'' 2,
                 transcript_entry critic critique ''### Heading'' 2]\<rparr>,
         \<lparr>requests = 4, callCount = 4, cancelled = False, background = []\<rparr>)"
    by code_simp
  from h1 h2 h3 h4 h5 h6 i r ei er show ?thesis by simp
qed

section \<open>C6: alignment in the second round\<close>

lemma extractAlignedSummary_ALIGNED:
  assumes "prefix ''ALIGNED'' (toUpperCase (trim response))"
  shows "extractAlignedSummary response fallback =
           (if 50 < length (aligned_remainder response) then aligned_remainder response
            else fallback)"
  using assms
  by (simp add: extractAlignedSummary_def ALIGNMENT_KEYWORDS_def aligned_remainder_def Let_def)

lemma isAligned_ALIGNED:
  "prefix ''ALIGNED'' (toUpperCase (trim response)) \<Longrightarrow> isAligned response"
  by (simp add: isAligned_def ALIGNMENT_KEYWORDS_def)

lemma interpretation_run_second_round:
  assumes "\<not> cancelled s" and "\<forall>i. \<not> cancelDuring e i"
    and g: "reply e (requests s) = Some g"
    and c: "reply e (requests s + 1) = Some c"
    and r: "reply e (requests s + 2) = Some r"
    and a: "isAligned r"
  shows "interpretation_run e 2 s =
           (Inr \<lparr>aligned = True, alignedInterpretation = extractAlignedSummary r g,
                 gptInterpretation = g, claudeInterpretation = c, rounds = 2\<rparr>,
            \<lparr>requests = requests s + 3, callCount = callCount s + 3, cancelled = False, background = background s\<rparr>)"
proof -
  let ?s1 = "\<lparr>requests = Suc (requests s), callCount = Suc (callCount s), cancelled = False, background = background s\<rparr>"
  let ?s2 = "\<lparr>requests = Suc (Suc (requests s)), callCount = Suc (Suc (callCount s)),
              cancelled = False, background = background s\<rparr>"
  let ?s3 = "\<lparr>requests = Suc (Suc (Suc (requests s))), callCount = Suc (Suc (Suc (callCount s))),
              cancelled = False, background = background s\<rparr>"
  have c3: "chat e critic ?s2 = (Inr r, ?s3)"
    using chat_answers[of ?s2 e r critic] assms(2) r by (simp add: numeral_2_eq_2)
  have "interpretation_run e 2 s = alignment_loop e 2 1 g c ?s2"
    using interpretation_run_after_answers[OF assms(1,2) g] c by simp
  also have "\<dots> = (Inr \<lparr>aligned = True, alignedInterpretation = extractAlignedSummary r g,
                 gptInterpretation = g, claudeInterpretation = c, rounds = 2\<rparr>, ?s3)"
    using c3 a by (subst alignment_loop.simps) simp
  finally show ?thesis by (simp add: numeral_3_eq_3)
qed

text \<open>
  C6, as the code has it. With \<open>maxRounds = 2\<close>, both initial interpretations received
  and no cancellation, a second-round response that starts with \<open>ALIGNED\<close> makes the phase
  return \<open>aligned = true\<close> and \<open>rounds = 2\<close>. The aligned interpretation is the text after
  the keyword, stripped of leading punctuation and white space, only when that text is
  longer than 50 characters; otherwise it is the drafter's interpretation. After
  \<open>ALIGNED. We agree the article argues X.\<close> the remaining text has 30 characters, so that
  response yields the drafter's interpretation.
\<close>

theorem aligned_in_round_two:
  assumes "\<not> cancelled s" and "\<forall>i. \<not> cancelDuring e i"
    and "reply e (requests s) = Some g"
    and "reply e (requests s + 1) = Some c"
    and "reply e (requests s + 2) = Some r"
    and "prefix ''ALIGNED'' (toUpperCase (trim r))"
  shows "interpretation_run e 2 s =
           (Inr \<lparr>aligned = True,
                 alignedInterpretation =
                   (if 50 < length (aligned_remainder r) then aligned_remainder r else g),
                 gptInterpretation = g, claudeInterpretation = c, rounds = 2\<rparr>,
            \<lparr>requests = requests s + 3, callCount = callCount s + 3, cancelled = False, background = background s\<rparr>)
       \<and> aligned_remainder ''ALIGNED. We agree the article argues X.''
           = ''We agree the article argues X.''
       \<and> length ''We agree the article argues X.'' = 30"
proof -
  have "aligned_remainder ''ALIGNED. We agree the article argues X.''
           = ''We agree the article argues X.''"
    by code_simp
  moreover have "length ''We agree the article argues X.'' = 30" by simp
  moreover note interpretation_run_second_round[OF assms(1-5) isAligned_ALIGNED[OF assms(6)]]
    extractAlignedSummary_ALIGNED[OF assms(6), of g]
  ultimately show ?thesis by simp
qed

text \<open>
  The scenario as the specification words it fails: with exactly that response the
  aligned interpretation is the drafter's text, not \<open>We agree the article argues X.\<close>
\<close>

theorem aligned_in_round_two_counterexample:
  "fst (interpretation_run
          (scripted [ok_response ''The article argues X because of Y.'',
                     ok_response ''The article argues X.'',
                     ok_response ''ALIGNED. We agree the article argues X.'']
             NetworkFailure) 2 fresh_client)
     = Inr \<lparr>aligned = True,
            alignedInterpretation = ''The article argues X because of Y.'',
            gptInterpretation = ''The article argues X because of Y.'',
            claudeInterpretation = ''The article argues X.'', rounds = 2\<rparr>
   \<and> ''The article argues X because of Y.'' \<noteq> ''We agree the article argues X.''"
  by code_simp

theorem aligned_in_round_two_witness:
  "\<not> cancelled fresh_client
   \<and> reply (scripted [ok_response ''The article argues X because of Y.'',
                     ok_response ''The article argues X.'',
                     ok_response ''ALIGNED. We agree the article argues X.'']
             NetworkFailure) 2 = Some ''ALIGNED. We agree the article argues X.''
   \<and> prefix ''ALIGNED'' (toUpperCase (trim ''ALIGNED. We agree the article argues X.''))
   \<and> interpretation_run
          (scripted [ok_response ''The article argues X because of Y.'',
                     ok_response ''The article argues X.'',
                     ok_response ''ALIGNED. We agree the article argues X.'']
             NetworkFailure) 2 fresh_client
       = (Inr \<lparr>aligned = True,
            alignedInterpretation = ''The article argues X because of Y.'',
            gptInterpretation = ''The article argues X because of Y.'',
            claudeInterpretation = ''The article argues X.'', rounds = 2\<rparr>,
          \<lparr>requests = 3, callCount = 3, cancelled = False, background = []\<rparr>)"
proof -
  let ?e = "scripted [ok_response ''The article argues X because of Y.'',
                     ok_response ''The article argues X.'',
                     ok_response ''ALIGNED. We agree the article argues X.'']
             NetworkFailure"
  have h1: "\<not> cancelled fresh_client" by (simp add: fresh_client_def)
  have h2: "\<forall>i. \<not> cancelDuring ?e i" by (simp add: scripted_def)
  have h3: "reply ?e (requests fresh_client) = Some ''The article argues X because of Y.''"
    by code_simp
  have h4: "reply ?e (requests fresh_client + 1) = Some ''The article argues X.''"
    by code_simp
  have h5: "reply ?e (requests fresh_client + 2) = Some ''ALIGNED. We agree the article argues X.''"
    by code_simp
  have h6: "prefix ''ALIGNED'' (toUpperCase (trim ''ALIGNED. We agree the article argues X.''))"
    by code_simp
  have r: "reply ?e 2 = Some ''ALIGNED. We agree the article argues X.''" by code_simp
  from aligned_in_round_two[OF h1 h2 h3 h4 h5 h6] h1 h6 r
  show ?thesis by (simp add: fresh_client_def)
qed

section \<open>C5: the orchestrator as the failure boundary\<close>

text \<open>
  \<open>process\<close> always returns a result. It ends either complete, with the notes of the
  refinement phase recorded as the current draft, or in the error phase with the failure
  message recorded; in the error phase the notes returned are always the empty list,
  because the session state receives a draft only after the refinement phase has returned.
\<close>

lemma process_error_boundary:
  assumes "process e mi mr art s = (result, s')"
  shows "(phase (state result) = phase_complete \<and> error (state result) = None
            \<and> currentDraft (state result) = Some (atomicNotes result))
       \<or> (phase (state result) = phase_error \<and> error (state result) \<noteq> None
            \<and> atomicNotes result = [])"
  using assms
  by (auto simp: process_def process_catch_def initial_state_def Let_def
      split: prod.splits sum.splits if_splits)

text \<open>
  C5, at a session that fails after a draft was made. The drafter's initial draft parses
  into one note; the critique request that follows is refused with status 401. \<open>process\<close>
  returns the error phase with the message of the 401, and the notes it returns are the
  empty list: the draft that existed inside the refinement loop is not handed back.
\<close>

theorem partial_draft_lost:
  "process (scripted [ok_response ''The article argues X because of Y.'',
                      ok_response ''The article argues X.'',
                      ok_response (''### X follows from Y'' @ [CHR 0x0A] @ ''Because of Y, X holds.''),
                      status_response 401] NetworkFailure) 1 1 () fresh_client
     = (\<lparr>article = (),
         state = initial_state
           \<lparr>phase := phase_error, interpretationRounds := 1,
            state_claudeInterpretation := Some ''The article argues X.'',
            state_gptInterpretation := Some ''The article argues X because of Y.'',
            state_alignedInterpretation :=
              Some (combineInterpretations ''The article argues X because of Y.''
                      ''The article argues X.''),
            error := Some ''Invalid API key. Please check your OpenRouter API key in settings.''\<rparr>,
         atomicNotes = [], totalApiCalls = 3\<rparr>,
        \<lparr>requests = 4, callCount = 3, cancelled = False, background = []\<rparr>)
   \<and> parse (''### X follows from Y'' @ [CHR 0x0A] @ ''Because of Y, X holds.'')
     = [\<lparr>heading = ''X follows from Y'', content = ''Because of Y, X holds.'',
         hasLink = False,
         raw = ''### X follows from Y'' @ [CHR 0x0A] @ ''Because of Y, X holds.''\<rparr>]"
  by code_simp

section \<open>C7: truncation\<close>

text \<open>
  Content within the ceiling is returned as it is. Longer content is cut and the notice
  appended, and the result is never longer than the ceiling plus the notice. When the
  first \<open>maxChars\<close> characters hold a space, the cut falls on the last such space: a word
  boundary. When they hold none, \<open>lastIndexOf\<close> answers \<open>-1\<close> and \<open>slice(0, -1)\<close> drops just
  the last character of the ceiling.
\<close>

lemma takeWhile_stops_at_member:
  "x \<in> set xs \<Longrightarrow> length (takeWhile (\<lambda>y. y \<noteq> x) xs) < length xs"
  by (induction xs) auto

lemma lastIndexOf_found:
  assumes "c \<in> set s"
  shows "\<exists>p. lastIndexOf s c = int p \<and> p < length s \<and> s ! p = c"
proof -
  let ?k = "length (takeWhile (\<lambda>x. x \<noteq> c) (rev s))"
  from assms have "c \<in> set (rev s)" by simp
  then have k: "?k < length (rev s)"
    by (rule takeWhile_stops_at_member)
  then have "\<not> (rev s ! ?k \<noteq> c)"
    by (rule nth_length_takeWhile)
  with k have "s ! (length s - 1 - ?k) = c"
    by (simp add: rev_nth)
  moreover from k have "lastIndexOf s c = int (length s - 1 - ?k)"
    using assms by (simp add: lastIndexOf_def)
  moreover from k have "length s - 1 - ?k < length s" by simp
  ultimately show ?thesis by blast
qed

lemma truncateContent_short:
  "length contents \<le> maxChars \<Longrightarrow> truncateContent contents maxChars = contents"
  by (simp add: truncateContent_def)

lemma truncateContent_at_space:
  assumes "maxChars < length contents" and "CHR '' '' \<in> set (take maxChars contents)"
  shows "\<exists>p<maxChars. contents ! p = CHR '' ''
           \<and> truncateContent contents maxChars = take p contents @ truncation_notice"
proof -
  from lastIndexOf_found[OF assms(2)] obtain p where
    p: "lastIndexOf (take maxChars contents) (CHR '' '') = int p"
       "p < length (take maxChars contents)" "take maxChars contents ! p = CHR '' ''"
    by blast
  from p(2) assms(1) have lt: "p < maxChars" by simp
  with p(3) have "contents ! p = CHR '' ''" by simp
  moreover have "slice_to (take maxChars contents) (int p) = take p contents"
    using lt assms(1) by (simp add: slice_to_def min_def)
  ultimately show ?thesis
    using assms(1) p(1) lt by (auto simp: truncateContent_def Let_def)
qed

lemma truncateContent_without_space:
  assumes "maxChars < length contents" and "CHR '' '' \<notin> set (take maxChars contents)"
  shows "truncateContent contents maxChars = take (maxChars - 1) contents @ truncation_notice"
proof -
  have "lastIndexOf (take maxChars contents) (CHR '' '') = - 1"
    using assms(2) by (simp add: lastIndexOf_def)
  moreover have "slice_to (take maxChars contents) (- 1) = take (maxChars - 1) contents"
    using assms(1) by (cases maxChars) (simp_all add: slice_to_def min_def max_def nat_diff_distrib)
  ultimately show ?thesis
    using assms(1) by (simp add: truncateContent_def)
qed

lemma truncateContent_length:
  assumes "maxChars < length contents"
  shows "length (truncateContent contents maxChars) \<le> maxChars + length truncation_notice"
proof (cases "CHR '' '' \<in> set (take maxChars contents)")
  case True
  from truncateContent_at_space[OF assms True] show ?thesis by auto
next
  case False
  from truncateContent_without_space[OF assms False] show ?thesis by simp
qed

lemma truncateContent_one_long_word:
  assumes "c \<noteq> CHR '' ''"
  shows "truncateContent (replicate (Suc n) c) n = replicate (n - 1) c @ truncation_notice"
proof -
  have "truncateContent (replicate (Suc n) c) n
      = take (n - 1) (replicate (Suc n) c) @ truncation_notice"
    using assms by (intro truncateContent_without_space) (auto simp del: replicate.simps)
  also have "take (n - 1) (replicate (Suc n) c) = replicate (n - 1) c"
    by (simp only: take_replicate) (simp add: min_def del: replicate.simps)
  finally show ?thesis .
qed

text \<open>
  C7, at content of 24001 letters without a space, one more than the ceiling of 24000:
  the output keeps 23999 letters and appends the notice. The cut falls between two
  letters of the same word.
\<close>

theorem truncateContent_cuts_inside_a_word:
  "truncateContent (replicate 24001 (CHR ''a'')) MAX_ARTICLE_CHARS
     = replicate 23999 (CHR ''a'') @ truncation_notice"
proof -
  have a: "(24001::nat) = Suc 24000" and b: "(23999::nat) = 24000 - 1" by simp_all
  have "CHR ''a'' \<noteq> CHR '' ''" by simp
  from truncateContent_one_long_word[OF this, of 24000]
  show ?thesis by (simp only: a b MAX_ARTICLE_CHARS_def)
qed

section \<open>C9: the note parser\<close>




lemma heading_ahead_prefix: "heading_ahead s \<Longrightarrow> prefix ''###'' s"
  by (simp add: heading_ahead_def)














lemma hashes_scan_mono:
  "hashes_scan False modelOutput \<Longrightarrow> hashes_scan lineStart modelOutput"
proof (induction modelOutput arbitrary: lineStart)
  case Nil
  then show ?case by simp
next
  case (Cons c cs)
  from Cons.prems have "hashes_scan (isLineTerminator c) cs" by simp
  then have "hashes_scan (isLineTerminator c \<or> (lineStart \<and> isSpace c)) cs"
    by (cases "isLineTerminator c") (auto intro: Cons.IH)
  then show ?case by simp
qed


text \<open>
  The narrower forms follow from the wider: a text with a heading marker has a line
  that begins with \<open>###\<close>, and a link on one line is a link.
\<close>

lemma heading_scan_hashes_scan:
  "heading_scan lineStart modelOutput \<Longrightarrow> hashes_scan lineStart modelOutput"
proof (induction modelOutput arbitrary: lineStart)
  case Nil
  then show ?case by simp
next
  case (Cons c cs)
  from Cons.prems consider "lineStart" "heading_ahead (c # cs)"
    | "heading_scan (isLineTerminator c) cs" by auto
  then show ?case
  proof cases
    case 1
    from 1(2) have "prefix ''###'' (c # cs)" by (rule heading_ahead_prefix)
    with 1(1) show ?thesis unfolding hashes_scan.simps by blast
  next
    case 2
    then have "hashes_scan (isLineTerminator c) cs" by (rule Cons.IH)
    then have "hashes_scan (isLineTerminator c \<or> (lineStart \<and> isSpace c)) cs"
      by (cases "isLineTerminator c") (auto dest: hashes_scan_mono)
    then show ?thesis by simp
  qed
qed

lemma heading_marker_is_line_of_hashes:
  "has_heading_marker modelOutput \<Longrightarrow> has_line_of_hashes modelOutput"
  unfolding has_heading_marker_def has_line_of_hashes_def by (rule heading_scan_hashes_scan)

lemma one_line_link_is_link:
  "contains_one_line_link body \<Longrightarrow> contains_markdown_link body"
  unfolding contains_one_line_link_def contains_markdown_link_def by blast

section \<open>The earlier revision of the classifiers\<close>

text \<open>
  The earlier revision classified by substring search. It takes a response that merely
  mentions alignment for an agreement, and a critique that merely mentions a marginal
  gain for an acceptance; the strict prefix match rejects both.
\<close>

lemma isAligned_early_accepts_mention:
  "isAligned_early ''The two readings are not aligned yet.''
   \<and> \<not> isAligned ''The two readings are not aligned yet.''"
  by code_simp

lemma parseCritiqueStatus_early_accepts_mention:
  "parseCritiqueStatus_early ''Note 2 must be rewritten; the rest is of marginal value.'' = Marginal
   \<and> parseCritiqueStatus ''Note 2 must be rewritten; the rest is of marginal value.'' = NeedsWork"
  by code_simp

end
